theory Spec2Isabelle
  imports Complex_Main "HOL-Library.Log_Nat"
begin

section \<open>Numbers of the program\<close>

text \<open>
  The program computes with JavaScript numbers. A number is modelled as an exact real, one
  of the two infinities, or NaN. Rounding to 64-bit floating point, overflow of a finite
  computation and the sign of zero are not modelled: a zero divisor counts as the positive
  zero. Every operator the two components use on numbers is written out below, including
  what it yields on NaN and on the infinities.
\<close>

datatype jsnum = Num real | PInf | NInf | NaN

fun isNaN :: "jsnum \<Rightarrow> bool" where
  "isNaN NaN = True"
| "isNaN _ = False"

fun isNum :: "jsnum \<Rightarrow> bool" where
  "isNum (Num r) = True"
| "isNum _ = False"

fun jneg :: "jsnum \<Rightarrow> jsnum" where
  "jneg (Num r) = Num (- r)"
| "jneg PInf = NInf"
| "jneg NInf = PInf"
| "jneg NaN = NaN"

text \<open>\<open>a + b\<close>\<close>

fun jadd :: "jsnum \<Rightarrow> jsnum \<Rightarrow> jsnum" where
  "jadd (Num a) (Num b) = Num (a + b)"
| "jadd NaN _ = NaN"
| "jadd _ NaN = NaN"
| "jadd PInf NInf = NaN"
| "jadd NInf PInf = NaN"
| "jadd PInf _ = PInf"
| "jadd NInf _ = NInf"
| "jadd (Num a) b = b"

text \<open>\<open>a - b\<close>\<close>

definition jsub :: "jsnum \<Rightarrow> jsnum \<Rightarrow> jsnum" where
  "jsub a b = jadd a (jneg b)"

text \<open>The sign of a number that is not NaN, as the real \<open>-1\<close>, \<open>0\<close> or \<open>1\<close>.\<close>

fun jsign :: "jsnum \<Rightarrow> real" where
  "jsign (Num r) = sgn r"
| "jsign PInf = 1"
| "jsign NInf = - 1"
| "jsign NaN = 0"

definition inf_of_sign :: "real \<Rightarrow> jsnum" where
  "inf_of_sign s = (if s = 0 then NaN else if 0 < s then PInf else NInf)"

text \<open>\<open>a * b\<close>: an infinity times zero is NaN.\<close>

fun jmul :: "jsnum \<Rightarrow> jsnum \<Rightarrow> jsnum" where
  "jmul (Num a) (Num b) = Num (a * b)"
| "jmul NaN _ = NaN"
| "jmul _ NaN = NaN"
| "jmul a b = inf_of_sign (jsign a * jsign b)"

text \<open>
  \<open>a / b\<close>: zero by zero and infinity by infinity are NaN, any other number by zero is
  the infinity of its sign, a finite number by an infinity is zero.
\<close>

fun jdiv :: "jsnum \<Rightarrow> jsnum \<Rightarrow> jsnum" where
  "jdiv (Num a) (Num b) = (if b = 0 then inf_of_sign (sgn a) else Num (a / b))"
| "jdiv NaN _ = NaN"
| "jdiv _ NaN = NaN"
| "jdiv (Num a) _ = Num 0"
| "jdiv a (Num b) = inf_of_sign (jsign a * (if b < 0 then - 1 else 1))"
| "jdiv _ _ = NaN"

text \<open>\<open>a < b\<close> and \<open>a <= b\<close>: false as soon as one side is NaN.\<close>

fun jlt :: "jsnum \<Rightarrow> jsnum \<Rightarrow> bool" where
  "jlt (Num a) (Num b) = (a < b)"
| "jlt NaN _ = False"
| "jlt _ NaN = False"
| "jlt _ NInf = False"
| "jlt PInf _ = False"
| "jlt _ _ = True"

fun jle :: "jsnum \<Rightarrow> jsnum \<Rightarrow> bool" where
  "jle (Num a) (Num b) = (a \<le> b)"
| "jle NaN _ = False"
| "jle _ NaN = False"
| "jle NInf _ = True"
| "jle _ PInf = True"
| "jle _ _ = False"

text \<open>\<open>a >= b\<close>\<close>

definition jge :: "jsnum \<Rightarrow> jsnum \<Rightarrow> bool" where
  "jge a b = jle b a"

text \<open>\<open>Math.abs\<close>\<close>

fun jabs :: "jsnum \<Rightarrow> jsnum" where
  "jabs (Num r) = Num \<bar>r\<bar>"
| "jabs NaN = NaN"
| "jabs _ = PInf"

text \<open>\<open>Math.max\<close> of two numbers, and of a spread list (\<open>-Infinity\<close> for no argument).\<close>

fun jmax :: "jsnum \<Rightarrow> jsnum \<Rightarrow> jsnum" where
  "jmax NaN _ = NaN"
| "jmax _ NaN = NaN"
| "jmax a b = (if jlt a b then b else a)"

definition mathMax :: "jsnum list \<Rightarrow> jsnum" where
  "mathMax vs = foldl jmax NInf vs"

text \<open>\<open>v || 0\<close> on a number: NaN and zero are falsy.\<close>

definition orZero :: "jsnum \<Rightarrow> jsnum" where
  "orZero v = (if v = NaN \<or> v = Num 0 then Num 0 else v)"

section \<open>Data points\<close>

text \<open>
  \<open>DataPoint\<close>, \<open>CalibrationData\<close> and \<open>RawData\<close> are the same shape: two numbers and a
  name. The name of a raw sample is the date-and-time text of its row. The name of a
  calibration point is a fixed Cyrillic word followed by a running number; characters here
  are 8 bits wide, so a calibration point keeps the number alone. The record is
  polymorphic in the name for that reason.
\<close>

record 'n DataPoint =
  x :: jsnum
  y :: jsnum
  name :: 'n

section \<open>Sorting with a comparator\<close>

text \<open>
  \<open>Array.prototype.sort\<close> is stable, and with a consistent comparator its result is
  determined by the comparator alone; it is modelled by a stable insertion sort. The
  comparator of both call sites is \<open>(a, b) => a.x - b.x\<close>: an element moves behind another
  one only when the difference is positive, and a NaN difference counts as zero. With a
  NaN code in the array the comparator is not consistent and the order a real engine
  produces is implementation-defined; the theorems on order below exclude that case.
\<close>

definition byX :: "'n DataPoint \<Rightarrow> 'n DataPoint \<Rightarrow> jsnum" where
  "byX a b = jsub (x a) (x b)"

definition positive :: "jsnum \<Rightarrow> bool" where
  "positive v = jlt (Num 0) v"

fun insort_cmp :: "('a \<Rightarrow> 'a \<Rightarrow> jsnum) \<Rightarrow> 'a \<Rightarrow> 'a list \<Rightarrow> 'a list" where
  "insort_cmp cmp a [] = [a]"
| "insort_cmp cmp a (b # bs) =
     (if positive (cmp a b) then b # insort_cmp cmp a bs else a # b # bs)"

definition sort_cmp :: "('a \<Rightarrow> 'a \<Rightarrow> jsnum) \<Rightarrow> 'a list \<Rightarrow> 'a list" where
  "sort_cmp cmp xs = foldr (insort_cmp cmp) xs []"

section \<open>Sensor code to litres (ChartPage)\<close>

text \<open>
  The loop of \<open>convertSensorCodeToLiters\<close>: the first index \<open>i\<close> with
  \<open>code >= s[i].x && code <= s[i + 1].x\<close>, as the pair of the two points; \<open>None\<close> when
  the loop ends without a \<open>break\<close>.
\<close>

fun findSegment :: "jsnum \<Rightarrow> 'n DataPoint list \<Rightarrow> ('n DataPoint \<times> 'n DataPoint) option" where
  "findSegment sensorCode (a # b # rest) =
     (if jge sensorCode (x a) \<and> jle sensorCode (x b) then Some (a, b)
      else findSegment sensorCode (b # rest))"
| "findSegment sensorCode _ = None"

text \<open>
  \<open>lowerPoint\<close> and \<open>upperPoint\<close> start as the first and the last point and are replaced
  by the pair the loop finds.
\<close>

definition interpolationPoints :: "jsnum \<Rightarrow> 'n DataPoint list \<Rightarrow> 'n DataPoint \<times> 'n DataPoint" where
  "interpolationPoints sensorCode sortedCalibration =
     (case findSegment sensorCode sortedCalibration of
        Some pr \<Rightarrow> pr
      | None \<Rightarrow> (hd sortedCalibration, last sortedCalibration))"

definition linear :: "jsnum \<Rightarrow> 'n DataPoint \<times> 'n DataPoint \<Rightarrow> jsnum" where
  "linear sensorCode pr =
     (let lowerPoint = fst pr; upperPoint = snd pr;
          ratio = jdiv (jsub sensorCode (x lowerPoint)) (jsub (x upperPoint) (x lowerPoint))
      in jadd (y lowerPoint) (jmul ratio (jsub (y upperPoint) (y lowerPoint))))"

definition convertSensorCodeToLiters :: "'n DataPoint list \<Rightarrow> jsnum \<Rightarrow> jsnum" where
  "convertSensorCodeToLiters calibrationData sensorCode =
     (if length calibrationData = 0 then sensorCode
      else let sortedCalibration = sort_cmp byX calibrationData in
        if jle sensorCode (x (hd sortedCalibration)) then y (hd sortedCalibration)
        else if jge sensorCode (x (last sortedCalibration)) then y (last sortedCalibration)
        else linear sensorCode (interpolationPoints sensorCode sortedCalibration))"

subsection \<open>The same conversion with rounded arithmetic\<close>

text \<open>
  The program computes in 64-bit floating point: the result of every subtraction, division,
  multiplication and addition is rounded, comparisons are exact. The definitions above
  leave the rounding out. \<open>rounded\<close> applies a rounding \<open>rnd\<close> to a finite number; the three
  definitions after it are the comparator of the sort, the interpolation formula and the
  conversion once more, operation for operation, with \<open>rnd\<close> applied to the result of each
  arithmetic operation. With the identity for \<open>rnd\<close> they are the definitions above.
\<close>

definition rounded :: "(real \<Rightarrow> real) \<Rightarrow> jsnum \<Rightarrow> jsnum" where
  "rounded rnd v = (case v of Num r \<Rightarrow> Num (rnd r) | _ \<Rightarrow> v)"

definition byX_rounded :: "(real \<Rightarrow> real) \<Rightarrow> 'n DataPoint \<Rightarrow> 'n DataPoint \<Rightarrow> jsnum" where
  "byX_rounded rnd a b = rounded rnd (jsub (x a) (x b))"

definition linear_rounded :: "(real \<Rightarrow> real) \<Rightarrow> jsnum \<Rightarrow> 'n DataPoint \<times> 'n DataPoint \<Rightarrow> jsnum" where
  "linear_rounded rnd sensorCode pr =
     (let lowerPoint = fst pr; upperPoint = snd pr;
          ratio = rounded rnd (jdiv (rounded rnd (jsub sensorCode (x lowerPoint)))
                                    (rounded rnd (jsub (x upperPoint) (x lowerPoint))))
      in rounded rnd (jadd (y lowerPoint)
           (rounded rnd (jmul ratio (rounded rnd (jsub (y upperPoint) (y lowerPoint)))))))"

definition convertSensorCodeToLiters_rounded ::
  "(real \<Rightarrow> real) \<Rightarrow> 'n DataPoint list \<Rightarrow> jsnum \<Rightarrow> jsnum" where
  "convertSensorCodeToLiters_rounded rnd calibrationData sensorCode =
     (if length calibrationData = 0 then sensorCode
      else let sortedCalibration = sort_cmp (byX_rounded rnd) calibrationData in
        if jle sensorCode (x (hd sortedCalibration)) then y (hd sortedCalibration)
        else if jge sensorCode (x (last sortedCalibration)) then y (last sortedCalibration)
        else linear_rounded rnd sensorCode (interpolationPoints sensorCode sortedCalibration))"

section \<open>Strings\<close>

text \<open>
  Texts are lists of 8-bit characters, so the model covers documents whose code units are
  below 256. The white space that \<open>trim\<close>, \<open>parseInt\<close> and \<open>parseFloat\<close> skip is, in that
  range: tab, line feed, vertical tab, form feed, carriage return, space and the
  no-break space.
\<close>

definition isWhiteSpace :: "char \<Rightarrow> bool" where
  "isWhiteSpace c =
     (c \<in> set [CHR 0x09, CHR 0x0A, CHR 0x0B, CHR 0x0C, CHR 0x0D, CHR 0x20, CHR 0xA0])"

definition trimStart :: "string \<Rightarrow> string" where
  "trimStart s = dropWhile isWhiteSpace s"

definition trim :: "string \<Rightarrow> string" where
  "trim s = rev (trimStart (rev (trimStart s)))"

text \<open>\<open>s.split(c)\<close> for a separator of one character: never the empty array.\<close>

fun split_on :: "char \<Rightarrow> string \<Rightarrow> string list" where
  "split_on c [] = [[]]"
| "split_on c (d # ds) =
     (if d = c then [] # split_on c ds
      else (case split_on c ds of w # ws \<Rightarrow> (d # w) # ws | [] \<Rightarrow> [[d]]))"

text \<open>\<open>s.includes(sub)\<close> (the name \<open>includes\<close> is taken)\<close>

fun str_includes :: "string \<Rightarrow> string \<Rightarrow> bool" where
  "str_includes [] sub = (sub = [])"
| "str_includes (c # cs) sub = (take (length sub) (c # cs) = sub \<or> str_includes cs sub)"

text \<open>\<open>s.toLowerCase()\<close>: the letters below 256 that have a lower case.\<close>

definition toLowerChar :: "char \<Rightarrow> char" where
  "toLowerChar c =
     (let n = (of_char c :: nat)
      in if (65 \<le> n \<and> n \<le> 90) \<or> (192 \<le> n \<and> n \<le> 222 \<and> n \<noteq> 215)
         then char_of (n + 32) else c)"

definition toLowerCase :: "string \<Rightarrow> string" where
  "toLowerCase s = map toLowerChar s"

text \<open>\<open>s.replace(/"/g, '')\<close>\<close>

definition removeQuotes :: "string \<Rightarrow> string" where
  "removeQuotes s = filter (\<lambda>c. c \<noteq> CHR 0x22) s"

subsection \<open>parseInt and parseFloat\<close>

definition isDigit :: "char \<Rightarrow> bool" where
  "isDigit c = ((48::nat) \<le> of_char c \<and> (of_char c :: nat) \<le> 57)"

text \<open>The value of a character as a digit of the given radix, if it is one.\<close>

definition radixDigit :: "nat \<Rightarrow> char \<Rightarrow> nat option" where
  "radixDigit radix c =
     (let n = (of_char c :: nat);
          d = (if 48 \<le> n \<and> n \<le> 57 then n - 48
               else if 97 \<le> n \<and> n \<le> 102 then n - 87
               else if 65 \<le> n \<and> n \<le> 70 then n - 55
               else radix)
      in if d < radix then Some d else None)"

definition digitsValue :: "nat \<Rightarrow> string \<Rightarrow> nat" where
  "digitsValue radix ds = foldl (\<lambda>acc d. acc * radix + d) 0 (List.map_filter (radixDigit radix) ds)"

text \<open>
  \<open>parseInt(string)\<close> with no radix: leading white space is skipped, a sign is read, a
  prefix \<open>0x\<close> or \<open>0X\<close> selects radix 16, and the longest run of digits is the value;
  whatever follows is ignored, and no digit at all is NaN.
\<close>

definition parseInt :: "string \<Rightarrow> jsnum" where
  "parseInt string =
     (let S = trimStart string;
          sign = (if S \<noteq> [] \<and> hd S = CHR ''-'' then - 1 else 1 :: real);
          S1 = (if S \<noteq> [] \<and> (hd S = CHR ''+'' \<or> hd S = CHR ''-'') then tl S else S);
          hex = (take 2 S1 = ''0x'' \<or> take 2 S1 = ''0X'');
          R = (if hex then 16 else 10);
          S2 = (if hex then drop 2 S1 else S1);
          Z = takeWhile (\<lambda>c. radixDigit R c \<noteq> None) S2
      in if Z = [] then NaN else Num (sign * real (digitsValue R Z)))"

text \<open>
  The exponent part at the head of a text: \<open>e\<close> or \<open>E\<close>, an optional sign and at least
  one digit; \<open>0\<close> when there is none.
\<close>

definition exponentPart :: "string \<Rightarrow> int" where
  "exponentPart s =
     (if s \<noteq> [] \<and> (hd s = CHR ''e'' \<or> hd s = CHR ''E'') then
        (let t = tl s;
             neg = (t \<noteq> [] \<and> hd t = CHR ''-'');
             u = (if t \<noteq> [] \<and> (hd t = CHR ''+'' \<or> hd t = CHR ''-'') then tl t else t);
             ds = takeWhile isDigit u
         in if ds = [] then 0
            else if neg then - int (digitsValue 10 ds) else int (digitsValue 10 ds))
      else 0)"

text \<open>
  \<open>parseFloat(string)\<close>: leading white space is skipped and the longest prefix that is a
  decimal literal is the value: a sign, then \<open>Infinity\<close>, or digits with an optional
  fraction and exponent. The value is exact here, where the program rounds it.
\<close>

definition parseFloat :: "string \<Rightarrow> jsnum" where
  "parseFloat string =
     (let S = trimStart string;
          neg = (S \<noteq> [] \<and> hd S = CHR ''-'');
          S1 = (if S \<noteq> [] \<and> (hd S = CHR ''+'' \<or> hd S = CHR ''-'') then tl S else S)
      in if take 8 S1 = ''Infinity'' then (if neg then NInf else PInf)
         else
          (let intDigits = takeWhile isDigit S1;
               S2 = dropWhile isDigit S1;
               hasDot = (S2 \<noteq> [] \<and> hd S2 = CHR ''.'');
               fracDigits = (if hasDot then takeWhile isDigit (tl S2) else []);
               S3 = (if hasDot then dropWhile isDigit (tl S2) else S2)
           in if intDigits = [] \<and> fracDigits = [] then NaN
              else
               (let mantissa = real (digitsValue 10 (intDigits @ fracDigits)) / 10 ^ length fracDigits;
                    e = exponentPart S3;
                    magnitude = (if 0 \<le> e then mantissa * 10 ^ nat e else mantissa / 10 ^ nat (- e))
                in Num (if neg then - magnitude else magnitude))))"

section \<open>The calibration table (DataUploader)\<close>

text \<open>
  \<open>DOMParser\<close> belongs to the browser. What \<open>parseCalibrationXML\<close> reads from the parsed
  document is the text of the first \<open>calibrationDate\<close> element, if there is one, and for
  every element that matches \<open>sensor value\<close>, in document order, its \<open>code\<close> attribute
  (\<open>null\<close> when absent) and its text. The function from the text of a file to these
  is a parameter, \<open>parseFromString\<close>.
\<close>

record value_element =
  getAttribute_code :: "string option"
  textContent :: string

record xml_document =
  calibrationDateElement :: "string option"
  valueElements :: "value_element list"

text \<open>
  The body of the \<open>forEach\<close>: a point is pushed when both \<open>code\<close> and \<open>value\<close> are truthy,
  that is present and not empty. \<open>volumeDivider\<close> is the state variable of the component
  as the enclosing render sees it.
\<close>

definition calibrationPoint :: "jsnum \<Rightarrow> nat \<times> value_element \<Rightarrow> nat DataPoint option" where
  "calibrationPoint volumeDivider ie =
     (let index = fst ie; element = snd ie; val = textContent element
      in case getAttribute_code element of
           None \<Rightarrow> None
         | Some code \<Rightarrow>
             if code \<noteq> [] \<and> val \<noteq> [] then
               (let originalVolume = parseInt val;
                    adjustedVolume = jdiv originalVolume volumeDivider
                in Some \<lparr>x = parseInt code, y = adjustedVolume, name = index + 1\<rparr>)
             else None)"

text \<open>The array \<open>calibrationData\<close> before it is sorted.\<close>

definition collectPoints :: "jsnum \<Rightarrow> value_element list \<Rightarrow> nat DataPoint list" where
  "collectPoints volumeDivider elements =
     List.map_filter (calibrationPoint volumeDivider) (enumerate 0 elements)"

definition parseCalibrationXML ::
  "(string \<Rightarrow> xml_document) \<Rightarrow> jsnum \<Rightarrow> string \<Rightarrow> nat DataPoint list \<times> string" where
  "parseCalibrationXML parseFromString volumeDivider xmlText =
     (let xmlDoc = parseFromString xmlText;
          calibrationDate = (case calibrationDateElement xmlDoc of Some t \<Rightarrow> t | None \<Rightarrow> []);
          calibrationData = collectPoints volumeDivider (valueElements xmlDoc)
      in (sort_cmp byX calibrationData, calibrationDate))"

section \<open>The raw series (DataUploader)\<close>

datatype error = MalformedRow nat string | MalformedDate string

text \<open>
  The header test. The source also looks for two Cyrillic keywords; no text of 8-bit
  characters contains them, so these two tests are false on every text of the model.
\<close>

definition hasHeader :: "string \<Rightarrow> bool" where
  "hasHeader firstLine =
     (str_includes firstLine '','' \<and>
      (str_includes (toLowerCase firstLine) ''time'' \<or> str_includes (toLowerCase firstLine) ''date''))"

text \<open>The callback of \<open>dataLines.map\<close>: it throws on a line with fewer than two fields.\<close>

definition rawPoint :: "nat \<Rightarrow> string \<Rightarrow> error + string DataPoint" where
  "rawPoint index line =
     (let parts = map (\<lambda>v. removeQuotes (trim v)) (split_on CHR '','' line)
      in if length parts < 2 then Inl (MalformedRow (index + 1) line)
         else
          (let dateTime = parts ! 0;
               sensorValue = orZero (parseFloat (parts ! 1))
           in Inr \<lparr>x = Num (real index), y = sensorValue, name = dateTime\<rparr>))"

text \<open>\<open>dataLines.map\<close>: the first throw ends the whole parse.\<close>

fun mapRows :: "nat \<Rightarrow> string list \<Rightarrow> error + string DataPoint list" where
  "mapRows index [] = Inr []"
| "mapRows index (line # rest) =
     (case rawPoint index line of
        Inl e \<Rightarrow> Inl e
      | Inr point \<Rightarrow>
          (case mapRows (index + 1) rest of
             Inl e \<Rightarrow> Inl e
           | Inr points \<Rightarrow> Inr (point # points)))"

text \<open>The lines that hold data: all lines of the trimmed text, without the header if any.\<close>

definition dataLines :: "string \<Rightarrow> string list" where
  "dataLines csvText =
     (let lines = split_on CHR 0x0A (trim csvText);
          firstLine = hd lines
      in if hasHeader firstLine then tl lines else lines)"

definition parseRawDataCSV :: "string \<Rightarrow> error + string DataPoint list" where
  "parseRawDataCSV csvText =
     (case mapRows 0 (dataLines csvText) of
        Inl e \<Rightarrow> Inl e
      | Inr points \<Rightarrow> Inr (filter (\<lambda>point. \<not> isNaN (y point)) points))"

section \<open>State of the two components and the event handlers\<close>

text \<open>
  \<open>volumeDivider\<close> and \<open>lastXmlData\<close> are the state of DataUploader; the other four fields
  are the state of ChartPage, whose own \<open>volumeDivider\<close> is called \<open>chartVolumeDivider\<close>
  here. The status line of DataUploader is display only and is left out.

  An event handler is a closure of the render in which the event fires: every state
  variable it reads has the value of that render, and a \<open>set...\<close> call becomes visible in
  the next render only. A handler therefore maps the state of its render to the state of
  the next one.
\<close>

record app_state =
  volumeDivider :: jsnum
  lastXmlData :: string
  calibrationData :: "nat DataPoint list"
  rawData :: "string DataPoint list"
  calibrationDate :: string
  chartVolumeDivider :: jsnum

definition initial_state :: app_state where
  "initial_state =
     \<lparr>volumeDivider = Num 1, lastXmlData = [], calibrationData = [], rawData = [],
      calibrationDate = [], chartVolumeDivider = Num 1\<rparr>"

definition handleCalibrationDataChange ::
  "app_state \<Rightarrow> nat DataPoint list \<Rightarrow> string \<Rightarrow> jsnum \<Rightarrow> app_state" where
  "handleCalibrationDataChange st dat date divider =
     st\<lparr>calibrationData := dat, calibrationDate := date, chartVolumeDivider := divider\<rparr>"

definition handleRawDataChange :: "app_state \<Rightarrow> string DataPoint list \<Rightarrow> app_state" where
  "handleRawDataChange st dat = st\<lparr>rawData := dat\<rparr>"

text \<open>
  \<open>handleDividerChange\<close>: the new divider is stored for the next render and handed to
  ChartPage; the table is parsed again by \<open>parseCalibrationXML\<close>, which divides by the
  \<open>volumeDivider\<close> of the current render.
\<close>

definition handleDividerChange ::
  "(string \<Rightarrow> xml_document) \<Rightarrow> app_state \<Rightarrow> jsnum \<Rightarrow> app_state" where
  "handleDividerChange parseFromString st newDivider =
     (let st1 = st\<lparr>volumeDivider := newDivider\<rparr>
      in if lastXmlData st \<noteq> [] then
           (let r = parseCalibrationXML parseFromString (volumeDivider st) (lastXmlData st)
            in handleCalibrationDataChange st1 (fst r) (snd r) newDivider)
         else st1)"

text \<open>
  The \<open>onload\<close> callback of \<open>handleCalibrationUpload\<close>, with the text of the file: an empty
  result is an error that changes the status line only.
\<close>

definition handleCalibrationUpload ::
  "(string \<Rightarrow> xml_document) \<Rightarrow> app_state \<Rightarrow> string \<Rightarrow> app_state" where
  "handleCalibrationUpload parseFromString st xmlText =
     (let r = parseCalibrationXML parseFromString (volumeDivider st) xmlText
      in if length (fst r) = 0 then st
         else (handleCalibrationDataChange st (fst r) (snd r) (volumeDivider st))
                \<lparr>lastXmlData := xmlText\<rparr>)"

definition handleRawDataUpload :: "app_state \<Rightarrow> string \<Rightarrow> app_state" where
  "handleRawDataUpload st csvText =
     (case parseRawDataCSV csvText of
        Inl e \<Rightarrow> st
      | Inr dat \<Rightarrow> if length dat = 0 then st else handleRawDataChange st dat)"

section \<open>Dates and the timestamped view (ChartPage)\<close>

text \<open>
  \<open>parseDateTime\<close> throws when the text is not two parts of three fields each. The value
  of \<open>new Date(year, month, day, hours, minutes, seconds).getTime()\<close> depends on the local
  time zone and is the parameter \<open>getTime\<close>.
\<close>

definition parseDateTime ::
  "(jsnum \<Rightarrow> jsnum \<Rightarrow> jsnum \<Rightarrow> jsnum \<Rightarrow> jsnum \<Rightarrow> jsnum \<Rightarrow> jsnum) \<Rightarrow> string \<Rightarrow> error + jsnum" where
  "parseDateTime getTime dateTimeStr =
     (let parts = split_on CHR '' '' (trim dateTimeStr)
      in if length parts \<noteq> 2 then Inl (MalformedDate dateTimeStr)
         else
          (let dateParts = split_on CHR ''.'' (parts ! 0);
               timeParts = split_on CHR '':'' (parts ! 1)
           in if length dateParts \<noteq> 3 \<or> length timeParts \<noteq> 3
              then Inl (MalformedDate dateTimeStr)
              else
               (let day = parseInt (dateParts ! 0);
                    month = jsub (parseInt (dateParts ! 1)) (Num 1);
                    year = parseInt (dateParts ! 2);
                    hours = parseInt (timeParts ! 0);
                    minutes = parseInt (timeParts ! 1);
                    seconds = parseInt (timeParts ! 2)
                in Inr (getTime year month day hours minutes seconds))))"

text \<open>
  One element of \<open>rawDataWithTimestamp\<close>: \<open>null\<close> when \<open>parseDateTime\<close> throws. The
  object has the fields \<open>x\<close>, \<open>y\<close> and \<open>originalName\<close>; the last one is the field \<open>name\<close>
  of the record here.
\<close>

definition withTimestamp ::
  "(jsnum \<Rightarrow> jsnum \<Rightarrow> jsnum \<Rightarrow> jsnum \<Rightarrow> jsnum \<Rightarrow> jsnum \<Rightarrow> jsnum) \<Rightarrow> 'n DataPoint list
     \<Rightarrow> string DataPoint \<Rightarrow> string DataPoint option" where
  "withTimestamp getTime cal item =
     (case parseDateTime getTime (name item) of
        Inl e \<Rightarrow> None
      | Inr t \<Rightarrow> Some \<lparr>x = t, y = convertSensorCodeToLiters cal (y item), name = name item\<rparr>)"

definition rawDataWithTimestamp ::
  "(jsnum \<Rightarrow> jsnum \<Rightarrow> jsnum \<Rightarrow> jsnum \<Rightarrow> jsnum \<Rightarrow> jsnum \<Rightarrow> jsnum) \<Rightarrow> 'n DataPoint list
     \<Rightarrow> string DataPoint list \<Rightarrow> string DataPoint list" where
  "rawDataWithTimestamp getTime cal raws = List.map_filter (withTimestamp getTime cal) raws"

section \<open>Statistics (ChartPage)\<close>

text \<open>
  \<open>findClosestCalibration\<close>: a \<open>reduce\<close> with no initial value, so it starts from the
  first point; a later point replaces the closest one only when it is strictly closer.
  Over an empty table the result is the object \<open>{ x: 0, y: 0 }\<close>, which has no name; the
  model gives it the number 0, which no calibration point carries.
\<close>

definition findClosestCalibration :: "nat DataPoint list \<Rightarrow> jsnum \<Rightarrow> nat DataPoint" where
  "findClosestCalibration cal sensorCode =
     (if length cal = 0 then \<lparr>x = Num 0, y = Num 0, name = 0\<rparr>
      else foldl (\<lambda>closest c.
                    if jlt (jabs (jsub (x c) sensorCode)) (jabs (jsub (x closest) sensorCode))
                    then c else closest)
             (hd cal) (tl cal))"

record deviation_row =
  raw :: jsnum
  rawInLiters :: jsnum
  calibration :: jsnum
  deviation :: jsnum

definition rawWithCalibration :: "nat DataPoint list \<Rightarrow> string DataPoint list \<Rightarrow> deviation_row list" where
  "rawWithCalibration cal raws =
     map (\<lambda>r. let closest = findClosestCalibration cal (y r);
                   litres = convertSensorCodeToLiters cal (y r)
               in \<lparr>raw = y r, rawInLiters = litres, calibration = y closest,
                   deviation = jabs (jsub litres (y closest))\<rparr>) raws"

text \<open>\<open>reduce((sum, v) => sum + v, 0)\<close>\<close>

definition sumOf :: "jsnum list \<Rightarrow> jsnum" where
  "sumOf vs = foldl jadd (Num 0) vs"

record statistics =
  calibrationAvg :: jsnum
  rawAvgInLiters :: jsnum
  avgDeviation :: jsnum
  maxDeviation :: jsnum
  sampleCount :: nat
  calibrationCount :: nat

text \<open>
  \<open>StatisticsPanel\<close>: \<open>None\<close> is the placeholder shown while there is no data at all;
  otherwise the six values the panel shows (the first four before \<open>toFixed(1)\<close>).
\<close>

definition StatisticsPanel ::
  "(jsnum \<Rightarrow> jsnum \<Rightarrow> jsnum \<Rightarrow> jsnum \<Rightarrow> jsnum \<Rightarrow> jsnum \<Rightarrow> jsnum) \<Rightarrow> nat DataPoint list
     \<Rightarrow> string DataPoint list \<Rightarrow> statistics option" where
  "StatisticsPanel getTime cal raws =
     (if length cal = 0 \<and> length raws = 0 then None
      else
       (let stamped = rawDataWithTimestamp getTime cal raws;
            rows = rawWithCalibration cal raws
        in Some
            \<lparr>calibrationAvg =
               (if length cal > 0 then jdiv (sumOf (map y cal)) (Num (real (length cal)))
                else Num 0),
             rawAvgInLiters =
               (if length stamped > 0
                then jdiv (sumOf (map y stamped)) (Num (real (length stamped))) else Num 0),
             avgDeviation =
               (if length rows > 0
                then jdiv (sumOf (map deviation rows)) (Num (real (length rows))) else Num 0),
             maxDeviation =
               (if length rows > 0 then mathMax (map deviation rows) else Num 0),
             sampleCount = length raws,
             calibrationCount = length cal\<rparr>))"

section \<open>Rounding to double precision\<close>

text \<open>
  The rounding of the program's arithmetic: to the nearest number with a significand of
  53 bits, a tie going to the even significand. \<open>ilog2 v\<close> is the exponent of a positive
  \<open>v\<close>, the largest \<open>k\<close> with \<open>2 ^ k <= v\<close>. The bounds of the exponent (overflow to an
  infinity, subnormal numbers) are not modelled.
\<close>

definition rne :: "real \<Rightarrow> int" where
  "rne v =
     (let n = \<lfloor>v\<rfloor>; f = v - of_int n
      in if f < 1 / 2 then n else if 1 / 2 < f then n + 1 else if even n then n else n + 1)"

definition pow2 :: "int \<Rightarrow> real" where
  "pow2 e = (if 0 \<le> e then 2 ^ nat e else 1 / 2 ^ nat (- e))"

definition ilog2 :: "real \<Rightarrow> int" where
  "ilog2 v =
     (if 1 \<le> v then int (floorlog 2 (nat \<lfloor>v\<rfloor>)) - 1
      else - int (floorlog 2 (nat (\<lceil>1 / v\<rceil> - 1))))"

definition toDouble :: "real \<Rightarrow> real" where
  "toDouble v =
     (if v = 0 then 0
      else let e = ilog2 \<bar>v\<bar> - 52 in of_int (rne (v / pow2 e)) * pow2 e)"

section \<open>Predicates on calibration tables\<close>

text \<open>
  A table is sorted when each point's code is \<open><=\<close> the code of every later point, and
  strictly increasing with \<open><\<close> in place of \<open><=\<close>. Its codes are finite when every \<open>x\<close>
  is a real number, its points are finite when every \<open>x\<close> and every \<open>y\<close> is.
\<close>

definition sortedByCode :: "'n DataPoint list \<Rightarrow> bool" where
  "sortedByCode cal = sorted_wrt (\<lambda>a b. jle (x a) (x b)) cal"

definition strictlyIncreasing :: "'n DataPoint list \<Rightarrow> bool" where
  "strictlyIncreasing cal = sorted_wrt (\<lambda>a b. jlt (x a) (x b)) cal"

definition finiteCodes :: "'n DataPoint list \<Rightarrow> bool" where
  "finiteCodes cal = list_all (\<lambda>p. isNum (x p)) cal"

definition finitePoints :: "'n DataPoint list \<Rightarrow> bool" where
  "finitePoints cal = list_all (\<lambda>p. isNum (x p) \<and> isNum (y p)) cal"

text \<open>The real number of a finite code, used to compare the sort with \<open>sort_key\<close>.\<close>

fun realOf :: "jsnum \<Rightarrow> real" where
  "realOf (Num r) = r"
| "realOf _ = 0"

definition codeOf :: "'n DataPoint \<Rightarrow> real" where
  "codeOf p = realOf (x p)"

section \<open>The interpolation as the specification words it\<close>

text \<open>
  This definition follows the text of the specification, not the source: the input itself
  over no points, the two clamps, then the first consecutive pair around the code, with
  the first point's volume returned when both codes of the pair are equal. The
  specification does not say what happens when no pair is found: \<open>None\<close>.
\<close>

definition interpolate_guarded :: "'n DataPoint list \<Rightarrow> jsnum \<Rightarrow> jsnum option" where
  "interpolate_guarded points code =
     (if points = [] then Some code
      else if jle code (x (hd points)) then Some (y (hd points))
      else if jge code (x (last points)) then Some (y (last points))
      else (case findSegment code points of
              None \<Rightarrow> None
            | Some (lo, hi) \<Rightarrow>
                if x hi = x lo then Some (y lo)
                else Some (jadd (y lo)
                       (jmul (jdiv (jsub code (x lo)) (jsub (x hi) (x lo))) (jsub (y hi) (y lo))))))"

section \<open>Example inputs\<close>

text \<open>
  The table of the specification's end-to-end scenario after a divisor of 10, a table with
  a code that occurs twice in the middle, and a table of two points with one code.
\<close>

definition scenario_curve :: "nat DataPoint list" where
  "scenario_curve =
     [\<lparr>x = Num 0, y = Num 0, name = 1\<rparr>, \<lparr>x = Num 100, y = Num 1, name = 2\<rparr>,
      \<lparr>x = Num 200, y = Num 2, name = 3\<rparr>]"

definition duplicate_curve :: "nat DataPoint list" where
  "duplicate_curve =
     [\<lparr>x = Num 0, y = Num 0, name = 1\<rparr>, \<lparr>x = Num 5, y = Num 10, name = 2\<rparr>,
      \<lparr>x = Num 5, y = Num 20, name = 3\<rparr>, \<lparr>x = Num 10, y = Num 30, name = 4\<rparr>]"

definition one_code_curve :: "nat DataPoint list" where
  "one_code_curve = [\<lparr>x = Num 5, y = Num 10, name = 1\<rparr>, \<lparr>x = Num 5, y = Num 20, name = 2\<rparr>]"

text \<open>
  The table the program holds after it has parsed the bodies 2, 9 and 20 under the divider
  10, and its middle point.
\<close>

definition rounding_curve :: "nat DataPoint list" where
  "rounding_curve =
     [\<lparr>x = Num 0, y = Num (toDouble (2 / 10)), name = 1\<rparr>,
      \<lparr>x = Num 1, y = Num (toDouble (9 / 10)), name = 2\<rparr>,
      \<lparr>x = Num 2, y = Num (toDouble (20 / 10)), name = 3\<rparr>]"

definition rounding_point :: "nat DataPoint" where
  "rounding_point = \<lparr>x = Num 1, y = Num (toDouble (9 / 10)), name = 2\<rparr>"

section \<open>Valid calibration documents\<close>

text \<open>
  An entry yields a point when its \<open>code\<close> attribute is present and not empty and its text
  is not empty. A document is valid when the code of every entry that yields a point is
  read by \<open>parseInt\<close> as a number.
\<close>

definition yieldsPoint :: "value_element \<Rightarrow> bool" where
  "yieldsPoint element =
     (case getAttribute_code element of
        None \<Rightarrow> False
      | Some code \<Rightarrow> code \<noteq> [] \<and> textContent element \<noteq> [])"

definition validCodes :: "value_element list \<Rightarrow> bool" where
  "validCodes elements =
     list_all (\<lambda>element. case getAttribute_code element of
                 None \<Rightarrow> True
               | Some code \<Rightarrow> yieldsPoint element \<longrightarrow> isNum (parseInt code)) elements"

section \<open>Example documents and samples\<close>

text \<open>
  Three parsed calibration documents: one entry with a fractional text, three entries of
  which two share the code 289, and the second entry of the template the uploader offers
  for download.
\<close>

definition fractional_document :: "string \<Rightarrow> xml_document" where
  "fractional_document xmlText =
     \<lparr>calibrationDateElement = None,
      valueElements = [\<lparr>getAttribute_code = Some ''1'', textContent = ''10.5''\<rparr>]\<rparr>"

definition repeated_code_document :: "string \<Rightarrow> xml_document" where
  "repeated_code_document xmlText =
     \<lparr>calibrationDateElement = None,
      valueElements =
        [\<lparr>getAttribute_code = Some ''289'', textContent = ''100''\<rparr>,
         \<lparr>getAttribute_code = Some ''0'', textContent = ''0''\<rparr>,
         \<lparr>getAttribute_code = Some ''289'', textContent = ''200''\<rparr>]\<rparr>"

definition one_entry_document :: "string \<Rightarrow> xml_document" where
  "one_entry_document xmlText =
     \<lparr>calibrationDateElement = None,
      valueElements = [\<lparr>getAttribute_code = Some ''289'', textContent = ''100''\<rparr>]\<rparr>"

text \<open>
  A stand-in for the clock arithmetic of the browser, for the examples only: it returns
  the seconds field.
\<close>

definition example_getTime :: "jsnum \<Rightarrow> jsnum \<Rightarrow> jsnum \<Rightarrow> jsnum \<Rightarrow> jsnum \<Rightarrow> jsnum \<Rightarrow> jsnum" where
  "example_getTime year month day hours minutes seconds = seconds"

definition dated_sample :: "string DataPoint" where
  "dated_sample = \<lparr>x = Num 0, y = Num 150, name = ''28.06.2025 07:03:29''\<rparr>"

definition undated_sample :: "string DataPoint" where
  "undated_sample = \<lparr>x = Num 1, y = Num 50, name = ''not-a-date''\<rparr>"

definition signed_raw :: "string DataPoint list" where
  "signed_raw =
     [\<lparr>x = Num 0, y = Num (- 3), name = ''28.06.2025 07:03:29''\<rparr>,
      \<lparr>x = Num 1, y = Num 5, name = ''28.06.2025 07:05:29''\<rparr>]"

section \<open>Facts about numbers\<close>

lemma isNum_iff: "isNum v \<longleftrightarrow> (\<exists>r. v = Num r)"
  by (cases v) simp_all

lemma isNum_realOf: "isNum v \<Longrightarrow> v = Num (realOf v)"
  by (cases v) simp_all

lemma jle_not_positive: "jle p q \<Longrightarrow> \<not> positive (jsub p q)"
  by (cases p; cases q) (simp_all add: positive_def jsub_def)

lemma jlt_jle: "jlt p q \<Longrightarrow> jle p q"
  by (cases p; cases q) simp_all

lemma not_jle_Num: "isNum q \<Longrightarrow> \<not> jle (Num r) q \<Longrightarrow> jlt q (Num r)"
  by (cases q) simp_all

lemma jlt_not_jle: "jlt p q \<Longrightarrow> \<not> jle q p"
  by (cases p; cases q) simp_all

section \<open>The sort on tables\<close>

lemma insort_cmp_sorted_head:
  "sortedByCode (a # bs) \<Longrightarrow> insort_cmp byX a bs = a # bs"
  by (cases bs) (simp_all add: sortedByCode_def byX_def jle_not_positive)

lemma sort_cmp_sorted: "sortedByCode cal \<Longrightarrow> sort_cmp byX cal = cal"
proof (induction cal)
  case Nil
  show ?case by (simp add: sort_cmp_def)
next
  case (Cons a bs)
  from Cons.prems have "sortedByCode bs" by (simp add: sortedByCode_def)
  with Cons.IH have "sort_cmp byX bs = bs" by simp
  then have "sort_cmp byX (a # bs) = insort_cmp byX a bs" by (simp add: sort_cmp_def)
  with Cons.prems show ?case by (simp add: insort_cmp_sorted_head)
qed

lemma positive_byX:
  "isNum (x a) \<Longrightarrow> isNum (x b) \<Longrightarrow> positive (byX a b) \<longleftrightarrow> codeOf b < codeOf a"
  by (cases "x a"; cases "x b") (simp_all add: positive_def byX_def jsub_def codeOf_def)

lemma insort_cmp_insort_key:
  "isNum (x a) \<Longrightarrow> finiteCodes bs \<Longrightarrow> insort_cmp byX a bs = insort_key codeOf a bs"
  by (induction bs) (auto simp: finiteCodes_def positive_byX)

lemma finiteCodes_insort_key:
  "isNum (x a) \<Longrightarrow> finiteCodes bs \<Longrightarrow> finiteCodes (insort_key codeOf a bs)"
  by (simp add: finiteCodes_def list_all_iff set_insort_key)

lemma sort_cmp_sort_key:
  "finiteCodes cal \<Longrightarrow> sort_cmp byX cal = sort_key codeOf cal \<and> finiteCodes (sort_key codeOf cal)"
proof (induction cal)
  case Nil
  show ?case by (simp add: sort_cmp_def finiteCodes_def)
next
  case (Cons a bs)
  from Cons.prems have a: "isNum (x a)" and bs: "finiteCodes bs" by (simp_all add: finiteCodes_def)
  from Cons.IH [OF bs] have ih: "sort_cmp byX bs = sort_key codeOf bs" and fin: "finiteCodes (sort_key codeOf bs)"
    by simp_all
  have "sort_cmp byX (a # bs) = insort_cmp byX a (sort_cmp byX bs)" by (simp add: sort_cmp_def)
  also have "\<dots> = insort_key codeOf a (sort_key codeOf bs)"
    using a fin ih by (simp add: insort_cmp_insort_key)
  finally show ?case using a fin by (simp add: finiteCodes_insort_key)
qed

lemma sortedByCode_sort_key:
  assumes "finiteCodes cal"
  shows "sortedByCode (sort_key codeOf cal)"
proof -
  have "sorted (map codeOf (sort_key codeOf cal))" by simp
  then have s: "sorted_wrt (\<lambda>a b. codeOf a \<le> codeOf b) (sort_key codeOf cal)"
    by (simp add: sorted_wrt_map)
  have "\<forall>p \<in> set (sort_key codeOf cal). isNum (x p)"
    using assms by (simp add: finiteCodes_def list_all_iff)
  then have "\<And>a b. a \<in> set (sort_key codeOf cal) \<Longrightarrow> b \<in> set (sort_key codeOf cal) \<Longrightarrow>
      codeOf a \<le> codeOf b \<Longrightarrow> jle (x a) (x b)"
    by (metis codeOf_def isNum_realOf jle.simps(1))
  with s show ?thesis unfolding sortedByCode_def
    by (rule sorted_wrt_mono_rel [rotated]) 
qed

lemma filter_code_not_Num:
  "\<forall>p \<in> set zs. isNum (x p) \<Longrightarrow> \<not> isNum k \<Longrightarrow> filter (\<lambda>p. x p = k) zs = []"
  by (auto simp: filter_empty_conv)

lemma filter_code_Num:
  "\<forall>p \<in> set zs. isNum (x p) \<Longrightarrow> filter (\<lambda>p. x p = Num r) zs = filter (\<lambda>p. codeOf p = r) zs"
  by (rule filter_cong) (auto simp: codeOf_def isNum_iff)

lemma filter_code_sort_key:
  assumes "finiteCodes cal"
  shows "filter (\<lambda>p. x p = k) (sort_key codeOf cal) = filter (\<lambda>p. x p = k) cal"
proof -
  have fin: "\<forall>p \<in> set cal. isNum (x p)"
    using assms by (simp add: finiteCodes_def list_all_iff)
  then have fin': "\<forall>p \<in> set (sort_key codeOf cal). isNum (x p)" by simp
  show ?thesis
  proof (cases "isNum k")
    case True
    then obtain r where k: "k = Num r" by (auto simp: isNum_iff)
    show ?thesis
      unfolding k filter_code_Num [OF fin] filter_code_Num [OF fin'] by (rule sort_key_stable)
  next
    case False
    show ?thesis
      unfolding filter_code_not_Num [OF fin False] filter_code_not_Num [OF fin' False] ..
  qed
qed

lemma finitePoints_D: "finitePoints cal \<Longrightarrow> p \<in> set cal \<Longrightarrow> isNum (x p) \<and> isNum (y p)"
  by (simp add: finitePoints_def list_all_iff)

lemma finitePoints_finiteCodes: "finitePoints cal \<Longrightarrow> finiteCodes cal"
  by (simp add: finitePoints_def finiteCodes_def list_all_iff)

lemma strictlyIncreasing_sortedByCode: "strictlyIncreasing cal \<Longrightarrow> sortedByCode cal"
  unfolding strictlyIncreasing_def sortedByCode_def
  by (erule sorted_wrt_mono_rel [rotated]) (simp add: jlt_jle)

section \<open>Properties of the conversion\<close>

text \<open>
  C5: over an empty calibration table the conversion returns its input unchanged, whatever
  the input is.
\<close>

theorem C5_empty_curve_pass_through:
  "convertSensorCodeToLiters [] sensorCode = sensorCode"
  by (simp add: convertSensorCodeToLiters_def)

text \<open>On a table that is already sorted the sort inside the conversion changes nothing.\<close>

lemma convert_sorted:
  "cal \<noteq> [] \<Longrightarrow> sortedByCode cal \<Longrightarrow>
   convertSensorCodeToLiters cal c =
     (if jle c (x (hd cal)) then y (hd cal)
      else if jge c (x (last cal)) then y (last cal)
      else linear c (interpolationPoints c cal))"
  by (simp add: convertSensorCodeToLiters_def sort_cmp_sorted)

text \<open>
  C4, as amended: over a non-empty sorted table the conversion returns the first point's
  volume whenever the code is \<open><=\<close> the first code, and the last point's volume whenever
  the code is \<open>>=\<close> the last code and not \<open><=\<close> the first code. The lower clamp is tested
  first and wins where both apply.
\<close>

theorem C4_clamp:
  "cal \<noteq> [] \<Longrightarrow> sortedByCode cal \<Longrightarrow>
   (jle lowCode (x (hd cal)) \<longrightarrow> convertSensorCodeToLiters cal lowCode = y (hd cal)) \<and>
   (jge highCode (x (last cal)) \<and> \<not> jle highCode (x (hd cal)) \<longrightarrow>
      convertSensorCodeToLiters cal highCode = y (last cal))"
  by (simp add: convert_sorted)

theorem C4_clamp_witness:
  "scenario_curve \<noteq> [] \<and> sortedByCode scenario_curve \<and>
   jle (Num (- 5)) (x (hd scenario_curve)) \<and>
   convertSensorCodeToLiters scenario_curve (Num (- 5)) = Num 0 \<and>
   jge (Num 300) (x (last scenario_curve)) \<and> \<not> jle (Num 300) (x (hd scenario_curve)) \<and>
   convertSensorCodeToLiters scenario_curve (Num 300) = Num 2"
  using C4_clamp [of scenario_curve "Num (- 5)" "Num 300"]
  by (simp add: scenario_curve_def sortedByCode_def jge_def)

text \<open>
  C4 as stated fails where the first and the last code are equal: in the sorted table of
  two points with code 5 and volumes 10 and 20, the code 5 is \<open>>=\<close> the last code, and
  the conversion returns 10, the first volume, not 20, the last one.
\<close>

theorem C4_clamp_counterexample:
  "one_code_curve \<noteq> [] \<and> sortedByCode one_code_curve \<and>
   jge (Num 5) (x (last one_code_curve)) \<and>
   y (last one_code_curve) = Num 20 \<and>
   convertSensorCodeToLiters one_code_curve (Num 5) = Num 10 \<and>
   convertSensorCodeToLiters one_code_curve (Num 5) \<noteq> y (last one_code_curve)"
  by (simp add: one_code_curve_def sortedByCode_def jge_def convertSensorCodeToLiters_def
      sort_cmp_def byX_def positive_def jsub_def)

subsection \<open>The pair the loop selects\<close>

lemma findSegment_exists:
  "s \<noteq> [] \<Longrightarrow> finiteCodes s \<Longrightarrow> jlt (x (hd s)) (Num r) \<Longrightarrow> jlt (Num r) (x (last s)) \<Longrightarrow>
   \<exists>lo hi. findSegment (Num r) s = Some (lo, hi) \<and> lo \<in> set s \<and> hi \<in> set s \<and>
           jlt (x lo) (Num r) \<and> jle (Num r) (x hi)"
proof (induction "Num r" s rule: findSegment.induct)
  case (1 a b rest)
  show ?case
  proof (cases "jle (Num r) (x b)")
    case True
    with "1.prems" show ?thesis by (simp add: jge_def jlt_jle)
  next
    case False
    from "1.prems" have fb: "isNum (x b)" and fr: "finiteCodes (b # rest)"
      by (simp_all add: finiteCodes_def)
    from False fb have lt: "jlt (x b) (Num r)" by (rule not_jle_Num [rotated])
    from "1.prems" lt have "rest \<noteq> []" by (cases "x b") auto
    with "1.prems" have last: "jlt (Num r) (x (last (b # rest)))" by simp
    from False have "\<not> (jge (Num r) (x a) \<and> jle (Num r) (x b))" by simp
    from "1.hyps" [OF this _ fr _ last] lt
    obtain lo hi where "findSegment (Num r) (b # rest) = Some (lo, hi)" "lo \<in> set (b # rest)"
      "hi \<in> set (b # rest)" "jlt (x lo) (Num r)" "jle (Num r) (x hi)" by auto
    with False show ?thesis by auto
  qed
next
  case "2_1"
  then show ?case by simp
next
  case "2_2"
  then show ?case by (auto dest: jlt_not_jle jlt_jle)
qed

lemma find_in_set: "find P zs = Some p \<Longrightarrow> p \<in> set zs \<and> P p"
  by (induction zs) (auto split: if_splits)

lemma findSegment_first:
  "sortedByCode s \<Longrightarrow> finiteCodes s \<Longrightarrow> s \<noteq> [] \<Longrightarrow> jlt (x (hd s)) (Num r) \<Longrightarrow>
   find (\<lambda>q. x q = Num r) s = Some p \<Longrightarrow>
   \<exists>lo. findSegment (Num r) s = Some (lo, p) \<and> lo \<in> set s \<and> jlt (x lo) (Num r)"
proof (induction "Num r" s rule: findSegment.induct)
  case (1 a b rest)
  from "1.prems" have fb: "isNum (x b)" and fr: "finiteCodes (b # rest)"
    and sr: "sortedByCode (b # rest)" and ab: "x a \<noteq> Num r"
    by (auto simp: finiteCodes_def sortedByCode_def)
  with "1.prems" have fp: "find (\<lambda>q. x q = Num r) (b # rest) = Some p" by simp
  show ?case
  proof (cases "jle (Num r) (x b)")
    case True
    have "p = b"
    proof (cases "x b = Num r")
      case True
      with fp show ?thesis by simp
    next
      case False
      from fp have "p \<in> set (b # rest)" "x p = Num r"
        using find_in_set [of "\<lambda>q. x q = Num r" "b # rest" p] by simp_all
      with False have "p \<in> set rest" by auto
      with sr have "jle (x b) (x p)" by (auto simp: sortedByCode_def)
      with \<open>x p = Num r\<close> True False fb show ?thesis by (cases "x b") auto
    qed
    with True "1.prems" show ?thesis by (simp add: jge_def jlt_jle)
  next
    case False
    from False fb have lt: "jlt (x b) (Num r)" by (rule not_jle_Num [rotated])
    from False have "\<not> (jge (Num r) (x a) \<and> jle (Num r) (x b))" by simp
    from "1.hyps" [OF this sr fr _ _ fp] lt
    obtain lo where "findSegment (Num r) (b # rest) = Some (lo, p)" "lo \<in> set (b # rest)"
      "jlt (x lo) (Num r)" by auto
    with False show ?thesis by auto
  qed
next
  case "2_1"
  then show ?case by simp
next
  case "2_2"
  then show ?case by (auto split: if_splits)
qed

lemma linear_Num:
  assumes "x lo = Num u" "x hi = Num v" "u < r" "r \<le> v" "y lo = Num a" "y hi = Num b"
  shows "linear (Num r) (lo, hi) = Num (a + (r - u) / (v - u) * (b - a))"
  using assms by (simp add: linear_def jsub_def)

lemma linear_at_upper:
  assumes "x lo = Num u" "x hi = Num r" "u < r" "isNum (y lo)" "isNum (y hi)"
  shows "linear (Num r) (lo, hi) = y hi"
proof -
  from assms obtain a b where ab: "y lo = Num a" "y hi = Num b" by (auto simp: isNum_iff)
  from assms ab have "linear (Num r) (lo, hi) = Num (a + (r - u) / (r - u) * (b - a))"
    by (intro linear_Num) simp_all
  with \<open>u < r\<close> ab show ?thesis by simp
qed

text \<open>
  C8: over a sorted table of finite points, which may repeat a code, and for every input
  strictly between the first and the last code, the loop selects a pair whose codes
  differ by a positive number, so the division is never by zero; the result is a real
  number; and it is the result of the interpolation of the specification, which returns
  the lower volume for a pair of equal codes.
\<close>

theorem C8_no_division_by_zero:
  assumes "cal \<noteq> []" and "sortedByCode cal" and "finitePoints cal"
    and "jlt (x (hd cal)) (Num r)" and "jlt (Num r) (x (last cal))"
  shows "\<exists>lo hi d. interpolationPoints (Num r) (sort_cmp byX cal) = (lo, hi) \<and>
           jsub (x hi) (x lo) = Num d \<and> 0 < d \<and>
           isNum (convertSensorCodeToLiters cal (Num r)) \<and>
           interpolate_guarded cal (Num r) = Some (convertSensorCodeToLiters cal (Num r))"
proof -
  from assms(3) have fc: "finiteCodes cal" by (rule finitePoints_finiteCodes)
  from findSegment_exists [OF assms(1) fc assms(4) assms(5)]
  obtain lo hi where seg: "findSegment (Num r) cal = Some (lo, hi)"
    and mem: "lo \<in> set cal" "hi \<in> set cal"
    and lt: "jlt (x lo) (Num r)" and le: "jle (Num r) (x hi)" by blast
  from mem assms(3) obtain u v a b where
    num: "x lo = Num u" "x hi = Num v" "y lo = Num a" "y hi = Num b"
    by (metis finitePoints_D isNum_iff)
  from lt le num have uv: "u < r" "r \<le> v" by simp_all
  have lin: "linear (Num r) (lo, hi) = Num (a + (r - u) / (v - u) * (b - a))"
    using num uv by (intro linear_Num) simp_all
  have nlow: "\<not> jle (Num r) (x (hd cal))" using assms(4) by (rule jlt_not_jle)
  have nhigh: "\<not> jge (Num r) (x (last cal))"
    using assms(5) by (simp add: jge_def jlt_not_jle)
  have pts: "interpolationPoints (Num r) cal = (lo, hi)"
    by (simp add: interpolationPoints_def seg)
  have conv: "convertSensorCodeToLiters cal (Num r) = Num (a + (r - u) / (v - u) * (b - a))"
    using assms(1,2) nlow nhigh pts lin by (simp add: convert_sorted)
  have guarded: "interpolate_guarded cal (Num r) = Some (linear (Num r) (lo, hi))"
    using assms(1) nlow nhigh seg num uv by (simp add: interpolate_guarded_def linear_def)
  have "interpolationPoints (Num r) (sort_cmp byX cal) = (lo, hi)"
    using pts assms(2) by (simp add: sort_cmp_sorted)
  moreover have "jsub (x hi) (x lo) = Num (v - u)" using num by (simp add: jsub_def)
  moreover have "0 < v - u" using uv by simp
  ultimately show ?thesis using conv guarded lin by simp
qed

theorem C8_no_division_by_zero_witness:
  "duplicate_curve \<noteq> [] \<and> sortedByCode duplicate_curve \<and> finitePoints duplicate_curve \<and>
   jlt (x (hd duplicate_curve)) (Num 5) \<and> jlt (Num 5) (x (last duplicate_curve)) \<and>
   isNum (convertSensorCodeToLiters duplicate_curve (Num 5)) \<and>
   interpolate_guarded duplicate_curve (Num 5) =
     Some (convertSensorCodeToLiters duplicate_curve (Num 5))"
proof -
  have h: "duplicate_curve \<noteq> []" "sortedByCode duplicate_curve" "finitePoints duplicate_curve"
    "jlt (x (hd duplicate_curve)) (Num 5)" "jlt (Num 5) (x (last duplicate_curve))"
    by (simp_all add: duplicate_curve_def sortedByCode_def finitePoints_def)
  from C8_no_division_by_zero [OF h] h show ?thesis by blast
qed

subsection \<open>Strictly increasing tables\<close>

lemma strictlyIncreasing_find:
  "strictlyIncreasing cal \<Longrightarrow> p \<in> set cal \<Longrightarrow> isNum (x p) \<Longrightarrow>
   find (\<lambda>q. x q = x p) cal = Some p"
proof (induction cal)
  case Nil
  then show ?case by simp
next
  case (Cons a rest)
  show ?case
  proof (cases "a = p")
    case True
    then show ?thesis by simp
  next
    case False
    with Cons.prems have p: "p \<in> set rest" by simp
    with Cons.prems have "jlt (x a) (x p)" by (simp add: strictlyIncreasing_def)
    with Cons.prems(3) have "x a \<noteq> x p" by (cases "x a"; cases "x p") auto
    moreover from Cons.prems have "strictlyIncreasing rest" by (simp add: strictlyIncreasing_def)
    ultimately show ?thesis using Cons.IH p Cons.prems(3) by simp
  qed
qed

lemma strictlyIncreasing_hd:
  "strictlyIncreasing cal \<Longrightarrow> p \<in> set cal \<Longrightarrow> jle (x p) (x (hd cal)) \<Longrightarrow> p = hd cal"
  by (cases cal) (auto simp: strictlyIncreasing_def dest: jlt_not_jle)

lemma strictlyIncreasing_last:
  "strictlyIncreasing cal \<Longrightarrow> p \<in> set cal \<Longrightarrow> jle (x (last cal)) (x p) \<Longrightarrow> p = last cal"
proof (induction cal)
  case Nil
  then show ?case by simp
next
  case (Cons a rest)
  show ?case
  proof (cases "rest = []")
    case True
    with Cons.prems show ?thesis by simp
  next
    case False
    then have lastin: "last rest \<in> set rest" by simp
    from Cons.prems have inc: "strictlyIncreasing rest" by (simp add: strictlyIncreasing_def)
    show ?thesis
    proof (cases "p \<in> set rest")
      case True
      with Cons.IH inc Cons.prems False show ?thesis by simp
    next
      case False
      with Cons.prems have "p = a" by simp
      with Cons.prems lastin have "jlt (x p) (x (last rest))" by (simp add: strictlyIncreasing_def)
      with Cons.prems \<open>rest \<noteq> []\<close> show ?thesis by (auto dest: jlt_not_jle)
    qed
  qed
qed

text \<open>
  Without rounding, the conversion of the code of any point of a strictly increasing table
  of finite points is the volume of that point.
\<close>

lemma passes_through_points_without_rounding:
  assumes "strictlyIncreasing cal" and "finitePoints cal" and "p \<in> set cal"
  shows "convertSensorCodeToLiters cal (x p) = y p"
proof -
  from assms(3) have ne: "cal \<noteq> []" by auto
  from assms(1) have sorted: "sortedByCode cal" by (rule strictlyIncreasing_sortedByCode)
  from assms(2,3) have fin: "isNum (x p)" "isNum (y p)" by (simp_all add: finitePoints_D)
  then obtain r where r: "x p = Num r" by (auto simp: isNum_iff)
  show ?thesis
  proof (cases "jle (x p) (x (hd cal))")
    case True
    with assms have "p = hd cal" by (simp add: strictlyIncreasing_hd)
    with True ne sorted show ?thesis by (simp add: convert_sorted)
  next
    case low: False
    show ?thesis
    proof (cases "jge (x p) (x (last cal))")
      case True
      with assms have "p = last cal" by (simp add: strictlyIncreasing_last jge_def)
      with True low ne sorted show ?thesis by (simp add: convert_sorted)
    next
      case high: False
      from ne assms(2) have "isNum (x (hd cal))" by (simp add: finitePoints_D)
      with low r have lt: "jlt (x (hd cal)) (Num r)" by (simp add: not_jle_Num)
      have "find (\<lambda>q. x q = Num r) cal = Some p"
        using strictlyIncreasing_find [OF assms(1,3) fin(1)] by (simp add: r)
      from findSegment_first [OF sorted finitePoints_finiteCodes [OF assms(2)] ne lt this]
      obtain lo where seg: "findSegment (Num r) cal = Some (lo, p)" and mem: "lo \<in> set cal"
        and lo: "jlt (x lo) (Num r)" by blast
      from mem assms(2) have finlo: "isNum (x lo)" "isNum (y lo)" by (simp_all add: finitePoints_D)
      then obtain u where u: "x lo = Num u" by (auto simp: isNum_iff)
      with lo have "u < r" by simp
      from linear_at_upper [OF u r this finlo(2) fin(2)]
      have "linear (Num r) (lo, p) = y p" .
      with seg low high ne sorted show ?thesis
        by (simp add: convert_sorted r interpolationPoints_def)
    qed
  qed
qed

subsection \<open>Facts about the rounding to double precision\<close>

lemma pow2_powi: "pow2 e = 2 powi e"
  by (simp add: pow2_def power_int_def inverse_eq_divide power_divide)

lemma pow2_pos: "0 < pow2 e"
  by (simp add: pow2_powi)

lemma pow2_mono: "a \<le> b \<Longrightarrow> pow2 a \<le> pow2 b"
  by (simp add: pow2_powi power_int_increasing)

lemma pow2_ilog2_le:
  assumes "0 < v"
  shows "pow2 (ilog2 v) \<le> v"
proof (cases "1 \<le> v")
  case True
  let ?n = "nat \<lfloor>v\<rfloor>"
  from True have n: "0 < ?n" by simp
  from floorlog_bounds [OF n, of 2] have b: "2 ^ (floorlog 2 ?n - 1) \<le> ?n" by simp
  from n have k: "1 \<le> floorlog 2 ?n" by (simp add: floorlog_def)
  then have "pow2 (ilog2 v) = 2 ^ (floorlog 2 ?n - 1)"
    using True by (simp add: ilog2_def pow2_def nat_diff_distrib)
  also have "\<dots> \<le> real ?n" using b by (metis of_nat_le_iff of_nat_numeral of_nat_power)
  also have "\<dots> \<le> v" using True by simp
  finally show ?thesis .
next
  case False
  let ?m = "nat (\<lceil>1 / v\<rceil> - 1)"
  from False assms have "1 < 1 / v" by simp
  then have c: "2 \<le> \<lceil>1 / v\<rceil>" by linarith
  then have m: "0 < ?m" by simp
  from floorlog_bounds [OF m, of 2] have b: "?m < 2 ^ floorlog 2 ?m" by simp
  then have "\<lceil>1 / v\<rceil> - 1 < 2 ^ floorlog 2 ?m" using c
    by (metis (no_types, lifting) m nat_less_iff of_nat_numeral of_nat_power zero_less_nat_eq zless_nat_conj of_nat_less_iff int_nat_eq)
  then have "\<lceil>1 / v\<rceil> \<le> 2 ^ floorlog 2 ?m" by simp
  then have "1 / v \<le> 2 ^ floorlog 2 ?m" by (metis ceiling_le_iff of_int_numeral of_int_power)
  then have "1 / 2 ^ floorlog 2 ?m \<le> v" using assms
    by (simp add: field_simps)
  moreover from m have "1 \<le> floorlog 2 ?m" by (simp add: floorlog_def)
  then have "pow2 (ilog2 v) = 1 / 2 ^ floorlog 2 ?m"
    using False by (simp add: ilog2_def pow2_def)
  ultimately show ?thesis by simp
qed

lemma rne_ge_1: "1 \<le> t \<Longrightarrow> 1 \<le> rne t"
  by (auto simp: rne_def Let_def)

lemma rne_le_m1: "t \<le> - 1 \<Longrightarrow> rne t \<le> - 1"
  by (auto simp: rne_def Let_def) linarith+

lemma scaled_ge_1:
  assumes "0 < v"
  shows "1 \<le> v / pow2 (ilog2 v - 52)"
proof -
  have "pow2 (ilog2 v - 52) \<le> pow2 (ilog2 v)" by (rule pow2_mono) simp
  also have "\<dots> \<le> v" using assms by (rule pow2_ilog2_le)
  finally show ?thesis using pow2_pos [of "ilog2 v - 52"] by simp
qed

lemma toDouble_pos: "0 < v \<Longrightarrow> 0 < toDouble v"
proof -
  assume v: "0 < v"
  then have "1 \<le> rne (v / pow2 (ilog2 v - 52))" by (intro rne_ge_1 scaled_ge_1)
  then have "0 < real_of_int (rne (v / pow2 (ilog2 v - 52)))" by simp
  with v pow2_pos [of "ilog2 v - 52"] show ?thesis
    by (simp add: toDouble_def Let_def)
qed

lemma toDouble_neg: "v < 0 \<Longrightarrow> toDouble v < 0"
proof -
  assume v: "v < 0"
  then have "1 \<le> (- v) / pow2 (ilog2 (- v) - 52)" by (intro scaled_ge_1) simp
  then have "v / pow2 (ilog2 \<bar>v\<bar> - 52) \<le> - 1" using v by simp
  then have "rne (v / pow2 (ilog2 \<bar>v\<bar> - 52)) \<le> - 1" by (rule rne_le_m1)
  then have "real_of_int (rne (v / pow2 (ilog2 \<bar>v\<bar> - 52))) < 0" by simp
  with v pow2_pos [of "ilog2 \<bar>v\<bar> - 52"] show ?thesis
    by (simp add: toDouble_def Let_def mult_neg_pos)
qed

lemma toDouble_1: "toDouble 1 = 1"
  by (simp add: toDouble_def ilog2_def rne_def pow2_def compute_floorlog Let_def)

lemmas toDouble_defs = toDouble_def ilog2_def rne_def pow2_def compute_floorlog Let_def

lemma toDouble_two_tenths: "toDouble (2 / 10) = 7205759403792794 / 2 ^ 55"
  by (simp add: toDouble_defs)

lemma toDouble_nine_tenths: "toDouble (9 / 10) = 8106479329266893 / 2 ^ 53"
  by (simp add: toDouble_defs)

lemma toDouble_difference:
  "toDouble (8106479329266893 / 2 ^ 53 - 7205759403792794 / 2 ^ 55) = 25220157913274776 / 2 ^ 55"
  by (simp add: toDouble_defs)

lemma toDouble_difference_again:
  "toDouble (25220157913274776 / 2 ^ 55) = 25220157913274776 / 2 ^ 55"
  by (simp add: toDouble_defs)

lemma toDouble_sum:
  "toDouble (7205759403792794 / 2 ^ 55 + 25220157913274776 / 2 ^ 55) = 8106479329266892 / 2 ^ 53"
  by (simp add: toDouble_defs)

subsection \<open>The conversion with rounded arithmetic\<close>

lemma rounded_id: "rounded (\<lambda>v. v) v = v"
  by (cases v) (simp_all add: rounded_def)

lemma convert_rounded_id:
  "convertSensorCodeToLiters_rounded (\<lambda>v. v) cal c = convertSensorCodeToLiters cal c"
proof -
  have "byX_rounded (\<lambda>v. v) = (byX :: 'a DataPoint \<Rightarrow> 'a DataPoint \<Rightarrow> jsnum)"
    by (intro ext) (simp add: byX_rounded_def byX_def rounded_id)
  moreover have "linear_rounded (\<lambda>v. v) c pr = linear c pr" for pr :: "'a DataPoint \<times> 'a DataPoint"
    by (simp add: linear_rounded_def linear_def rounded_id)
  ultimately show ?thesis
    by (simp add: convertSensorCodeToLiters_rounded_def convertSensorCodeToLiters_def Let_def)
qed

lemma insort_rounded_increasing:
  assumes "\<forall>v. v < 0 \<longrightarrow> rnd v < 0"
    and "strictlyIncreasing (a # bs)" and "finiteCodes (a # bs)"
  shows "insort_cmp (byX_rounded rnd) a bs = a # bs"
proof (cases bs)
  case Nil
  then show ?thesis by simp
next
  case (Cons b rest)
  with assms(2) have "jlt (x a) (x b)" by (simp add: strictlyIncreasing_def)
  moreover from assms(3) Cons obtain u v where "x a = Num u" "x b = Num v"
    by (auto simp: finiteCodes_def isNum_iff)
  ultimately have neg: "u - v < 0" and cmp: "byX_rounded rnd a b = Num (rnd (u - v))"
    by (simp_all add: byX_rounded_def rounded_def jsub_def)
  from assms(1) neg have "rnd (u - v) < 0" by blast
  with cmp have "\<not> positive (byX_rounded rnd a b)"
    by (simp add: positive_def)
  with Cons show ?thesis by simp
qed

lemma sort_rounded_increasing:
  assumes "\<forall>v. v < 0 \<longrightarrow> rnd v < 0"
  shows "strictlyIncreasing cal \<Longrightarrow> finiteCodes cal \<Longrightarrow> sort_cmp (byX_rounded rnd) cal = cal"
proof (induction cal)
  case Nil
  show ?case by (simp add: sort_cmp_def)
next
  case (Cons a bs)
  from Cons.prems have "strictlyIncreasing bs" "finiteCodes bs"
    by (simp_all add: strictlyIncreasing_def finiteCodes_def)
  with Cons.IH have "sort_cmp (byX_rounded rnd) bs = bs" by simp
  then have "sort_cmp (byX_rounded rnd) (a # bs) = insort_cmp (byX_rounded rnd) a bs"
    by (simp add: sort_cmp_def)
  with Cons.prems assms show ?case by (simp add: insort_rounded_increasing)
qed

lemma findSegment_consecutive:
  "findSegment c s = Some (lo, hi) \<Longrightarrow> \<exists>pre post. s = pre @ lo # hi # post"
proof (induction c s rule: findSegment.induct)
  case (1 c a b rest)
  show ?case
  proof (cases "jge c (x a) \<and> jle c (x b)")
    case True
    with "1.prems" have "a # b # rest = [] @ lo # hi # rest" by simp
    then show ?thesis by blast
  next
    case False
    with "1.prems" have "findSegment c (b # rest) = Some (lo, hi)" by simp
    from "1.IH" [OF False this] obtain pre post where "b # rest = pre @ lo # hi # post" by blast
    then have "a # b # rest = (a # pre) @ lo # hi # post" by simp
    then show ?thesis by blast
  qed
next
  case "2_1"
  then show ?case by simp
next
  case "2_2"
  then show ?case by simp
qed

lemma linear_rounded_at_upper:
  assumes "rnd 1 = 1" and "\<forall>v. 0 < v \<longrightarrow> 0 < rnd v"
    and "x lo = Num u" and "x hi = Num r" and "u < r" and "y lo = Num a" and "y hi = Num b"
  shows "linear_rounded rnd (Num r) (lo, hi) = Num (rnd (a + rnd (rnd (b - a))))"
proof -
  from assms(2,5) have "0 < rnd (r - u)" by simp
  then have nz: "rnd (r - u) \<noteq> 0" by simp
  have d: "rounded rnd (jsub (Num r) (x lo)) = Num (rnd (r - u))"
    "rounded rnd (jsub (x hi) (x lo)) = Num (rnd (r - u))"
    using assms(3,4) by (simp_all add: rounded_def jsub_def)
  have ratio: "rounded rnd (jdiv (Num (rnd (r - u))) (Num (rnd (r - u)))) = Num 1"
    using nz assms(1) by (simp add: rounded_def)
  have diff: "rounded rnd (jsub (y hi) (y lo)) = Num (rnd (b - a))"
    using assms(6,7) by (simp add: rounded_def jsub_def)
  show ?thesis
    unfolding linear_rounded_def Let_def fst_conv snd_conv d ratio diff
    using assms(6) by (simp add: rounded_def)
qed

lemma rounding_curve_facts:
  "strictlyIncreasing rounding_curve" "finitePoints rounding_curve"
  "rounding_point \<in> set rounding_curve" "rounding_point \<noteq> hd rounding_curve"
  "rounding_point \<noteq> last rounding_curve"
  by (simp_all add: rounding_curve_def rounding_point_def strictlyIncreasing_def finitePoints_def)

text \<open>
  C9, as amended: over a table of finite points whose codes are strictly increasing, and
  for every rounding that keeps 1 and the sign of a number, the conversion of the code of
  the first or of the last point is exactly the volume of that point; the conversion of
  the code of any other point \<open>p\<close>, with volume \<open>b\<close>, is \<open>a + 1 * (b - a)\<close> for the volume \<open>a\<close>
  of the point before \<open>p\<close>, rounded after the subtraction, after the multiplication by
  the ratio 1 and after the addition, which is \<open>b\<close> up to rounding.
\<close>

theorem C9_passes_through_up_to_rounding:
  assumes "rnd 1 = 1" and "\<forall>v. 0 < v \<longrightarrow> 0 < rnd v" and "\<forall>v. v < 0 \<longrightarrow> rnd v < 0"
    and "strictlyIncreasing cal" and "finitePoints cal" and "p \<in> set cal"
  shows "(p = hd cal \<or> p = last cal \<longrightarrow>
            convertSensorCodeToLiters_rounded rnd cal (x p) = y p) \<and>
         (p \<noteq> hd cal \<and> p \<noteq> last cal \<longrightarrow>
            (\<exists>pre lo post a b. cal = pre @ lo # p # post \<and> y lo = Num a \<and> y p = Num b \<and>
               convertSensorCodeToLiters_rounded rnd cal (x p) =
                 Num (rnd (a + rnd (rnd (b - a))))))"
proof -
  from assms(6) have ne: "cal \<noteq> []" by auto
  from assms(5) have fc: "finiteCodes cal" by (rule finitePoints_finiteCodes)
  from assms(4) have sorted: "sortedByCode cal" by (rule strictlyIncreasing_sortedByCode)
  have srt: "sort_cmp (byX_rounded rnd) cal = cal"
    using assms(3,4) fc by (rule sort_rounded_increasing)
  from assms(5,6) have fin: "isNum (x p)" "isNum (y p)" by (simp_all add: finitePoints_D)
  then obtain r b where r: "x p = Num r" and b: "y p = Num b" by (auto simp: isNum_iff)
  have conv: "convertSensorCodeToLiters_rounded rnd cal (x p) =
      (if jle (x p) (x (hd cal)) then y (hd cal)
       else if jge (x p) (x (last cal)) then y (last cal)
       else linear_rounded rnd (x p) (interpolationPoints (x p) cal))"
    using ne by (simp add: convertSensorCodeToLiters_rounded_def srt)
  have low: "jle (x p) (x (hd cal)) \<longleftrightarrow> p = hd cal"
    using assms(4,6) r by (auto simp: strictlyIncreasing_hd)
  have high: "jge (x p) (x (last cal)) \<longleftrightarrow> p = last cal"
    using assms(4,6) r by (auto simp: strictlyIncreasing_last jge_def)
  have ends: "p = hd cal \<or> p = last cal \<longrightarrow> convertSensorCodeToLiters_rounded rnd cal (x p) = y p"
    using conv low high by auto
  have inner: "\<exists>pre lo post a b. cal = pre @ lo # p # post \<and> y lo = Num a \<and> y p = Num b \<and>
      convertSensorCodeToLiters_rounded rnd cal (x p) = Num (rnd (a + rnd (rnd (b - a))))"
    if "p \<noteq> hd cal" "p \<noteq> last cal"
  proof -
    from ne assms(5) have "isNum (x (hd cal))" by (simp add: finitePoints_D)
    with that low r have lt: "jlt (x (hd cal)) (Num r)" by (simp add: not_jle_Num)
    have "find (\<lambda>q. x q = Num r) cal = Some p"
      using strictlyIncreasing_find [OF assms(4,6) fin(1)] by (simp add: r)
    from findSegment_first [OF sorted fc ne lt this]
    obtain lo where seg: "findSegment (Num r) cal = Some (lo, p)" and mem: "lo \<in> set cal"
      and lo: "jlt (x lo) (Num r)" by blast
    from findSegment_consecutive [OF seg] obtain pre post where split: "cal = pre @ lo # p # post"
      by blast
    from mem assms(5) obtain u a where ua: "x lo = Num u" "y lo = Num a"
      by (metis finitePoints_D isNum_iff)
    with lo have "u < r" by simp
    from linear_rounded_at_upper [OF assms(1,2) ua(1) r this ua(2) b]
    have "linear_rounded rnd (Num r) (lo, p) = Num (rnd (a + rnd (rnd (b - a))))" .
    with seg that low high conv have "convertSensorCodeToLiters_rounded rnd cal (x p) =
        Num (rnd (a + rnd (rnd (b - a))))"
      by (simp add: r interpolationPoints_def)
    with split ua b show ?thesis by blast
  qed
  from ends inner show ?thesis by blast
qed

theorem C9_passes_through_up_to_rounding_witness:
  "toDouble 1 = 1 \<and> 0 < toDouble (1 / 3) \<and> toDouble (- (1 / 3)) < 0 \<and>
   strictlyIncreasing rounding_curve \<and> finitePoints rounding_curve \<and>
   rounding_point \<in> set rounding_curve \<and>
   rounding_point \<noteq> hd rounding_curve \<and> rounding_point \<noteq> last rounding_curve \<and>
   (\<exists>pre lo post a b. rounding_curve = pre @ lo # rounding_point # post \<and>
      y lo = Num a \<and> y rounding_point = Num b \<and>
      convertSensorCodeToLiters_rounded toDouble rounding_curve (x rounding_point) =
        Num (toDouble (a + toDouble (toDouble (b - a)))))"
proof -
  have r: "toDouble 1 = 1" "\<forall>v. 0 < v \<longrightarrow> 0 < toDouble v" "\<forall>v. v < 0 \<longrightarrow> toDouble v < 0"
    by (simp_all add: toDouble_1 toDouble_pos toDouble_neg)
  from r have "0 < toDouble (1 / 3)" "toDouble (- (1 / 3)) < 0" by simp_all
  with C9_passes_through_up_to_rounding [OF r rounding_curve_facts(1,2,3)] r(1)
    rounding_curve_facts
  show ?thesis by blast
qed

text \<open>
  C9 as stated fails in double precision: in the table with codes 0, 1, 2 and volumes
  2 / 10, 9 / 10, 20 / 10 as the program holds them, the conversion of the code 1 is
  \<open>0.2 + 1 * (0.9 - 0.2)\<close>, which rounds to the double just below the volume of that point.
\<close>

theorem C9_counterexample:
  "strictlyIncreasing rounding_curve \<and> finitePoints rounding_curve \<and>
   rounding_point \<in> set rounding_curve \<and>
   y rounding_point = Num (8106479329266893 / 2 ^ 53) \<and>
   convertSensorCodeToLiters_rounded toDouble rounding_curve (x rounding_point) =
     Num (8106479329266892 / 2 ^ 53) \<and>
   convertSensorCodeToLiters_rounded toDouble rounding_curve (x rounding_point) \<noteq> y rounding_point"
proof -
  have srt: "sort_cmp (byX_rounded toDouble) rounding_curve = rounding_curve"
    by (rule sort_rounded_increasing)
       (simp_all add: toDouble_neg rounding_curve_facts finitePoints_finiteCodes)
  have ends: "rounding_curve \<noteq> []" "x (hd rounding_curve) = Num 0"
    "y (hd rounding_curve) = Num (toDouble (2 / 10))" "x (last rounding_curve) = Num 2"
    "x rounding_point = Num 1" "y rounding_point = Num (toDouble (9 / 10))"
    by (simp_all add: rounding_curve_def rounding_point_def)
  have seg: "interpolationPoints (Num 1) rounding_curve = (hd rounding_curve, rounding_point)"
    by (simp add: interpolationPoints_def rounding_curve_def rounding_point_def jge_def)
  have lin: "linear_rounded toDouble (Num 1) (hd rounding_curve, rounding_point) =
      Num (toDouble (toDouble (2 / 10) + toDouble (toDouble (toDouble (9 / 10) - toDouble (2 / 10)))))"
    using toDouble_1 _ ends(2) ends(5) _ ends(3) ends(6)
    by (rule linear_rounded_at_upper) (simp_all add: toDouble_pos)
  have val: "toDouble (toDouble (2 / 10) + toDouble (toDouble (toDouble (9 / 10) - toDouble (2 / 10))))
      = 8106479329266892 / 2 ^ 53"
    by (simp only: toDouble_two_tenths toDouble_nine_tenths toDouble_difference
        toDouble_difference_again toDouble_sum)
  have linv: "linear_rounded toDouble (Num 1) (hd rounding_curve, rounding_point) =
      Num (8106479329266892 / 2 ^ 53)"
    by (simp only: lin val)
  have conv: "convertSensorCodeToLiters_rounded toDouble rounding_curve (x rounding_point) =
      Num (8106479329266892 / 2 ^ 53)"
    unfolding convertSensorCodeToLiters_rounded_def Let_def srt ends(5)
    using ends(1) by (simp add: ends(2,4) seg linv jge_def)
  have yp: "y rounding_point = Num (8106479329266893 / 2 ^ 53)"
    by (simp add: rounding_point_def toDouble_nine_tenths)
  show ?thesis using conv yp rounding_curve_facts by simp
qed

section \<open>Properties of the calibration parser\<close>

lemmas parse_number_defs =
  parseInt_def parseFloat_def trimStart_def isWhiteSpace_def isDigit_def exponentPart_def
  digitsValue_def radixDigit_def

lemma set_insort_cmp: "set (insort_cmp cmp a bs) = insert a (set bs)"
  by (induction bs) auto

lemma set_sort_cmp: "set (sort_cmp cmp zs) = set zs"
  by (induction zs) (simp_all add: sort_cmp_def set_insort_cmp)

lemma in_collectPoints:
  "p \<in> set (collectPoints vd elements) \<longleftrightarrow>
   (\<exists>i < length elements. calibrationPoint vd (i, elements ! i) = Some p)"
  by (auto simp: collectPoints_def List.map_filter_def in_set_enumerate_eq image_iff)

lemma calibrationPoint_Some:
  "calibrationPoint vd (i, element) = Some p \<longleftrightarrow>
   (\<exists>code. getAttribute_code element = Some code \<and> code \<noteq> [] \<and> textContent element \<noteq> [] \<and>
      p = \<lparr>x = parseInt code, y = jdiv (parseInt (textContent element)) vd, name = i + 1\<rparr>)"
  by (auto simp: calibrationPoint_def Let_def split: option.splits)

lemma finiteCodes_collectPoints:
  assumes "validCodes elements"
  shows "finiteCodes (collectPoints vd elements)"
  unfolding finiteCodes_def list_all_iff
proof
  fix p assume "p \<in> set (collectPoints vd elements)"
  then obtain i where i: "i < length elements"
    and p: "calibrationPoint vd (i, elements ! i) = Some p" by (auto simp: in_collectPoints)
  from p obtain code where c: "getAttribute_code (elements ! i) = Some code" "code \<noteq> []"
    "textContent (elements ! i) \<noteq> []" "x p = parseInt code"
    by (auto simp: calibrationPoint_Some)
  from assms i have "case getAttribute_code (elements ! i) of None \<Rightarrow> True
     | Some code \<Rightarrow> yieldsPoint (elements ! i) \<longrightarrow> isNum (parseInt code)"
    by (simp add: validCodes_def list_all_length)
  with c show "isNum (x p)" by (simp add: yieldsPoint_def)
qed

lemma collect_repeated:
  "collectPoints vd (valueElements (repeated_code_document t)) =
    [\<lparr>x = Num 289, y = jdiv (Num 100) vd, name = 1\<rparr>, \<lparr>x = Num 0, y = jdiv (Num 0) vd, name = 2\<rparr>,
     \<lparr>x = Num 289, y = jdiv (Num 200) vd, name = 3\<rparr>]"
  by (simp add: collectPoints_def repeated_code_document_def enumerate_eq_zip upt_rec
      calibrationPoint_def parse_number_defs)

text \<open>
  C6: for every valid calibration document the points the parser returns are
  non-decreasing in code, and for every code the points with that code come in the order
  in which the document lists them (\<open>collectPoints\<close> is the array before the sort).
\<close>

theorem C6_sorted_and_stable:
  assumes "validCodes (valueElements (parseFromString xmlText))"
  shows "sortedByCode (fst (parseCalibrationXML parseFromString divider xmlText)) \<and>
         (\<forall>k. filter (\<lambda>p. x p = k) (fst (parseCalibrationXML parseFromString divider xmlText)) =
              filter (\<lambda>p. x p = k)
                (collectPoints divider (valueElements (parseFromString xmlText))))"
proof -
  let ?pts = "collectPoints divider (valueElements (parseFromString xmlText))"
  from assms have fin: "finiteCodes ?pts" by (rule finiteCodes_collectPoints)
  have res: "fst (parseCalibrationXML parseFromString divider xmlText) = sort_key codeOf ?pts"
    using sort_cmp_sort_key [OF fin] by (simp add: parseCalibrationXML_def Let_def)
  show ?thesis
    unfolding res using sortedByCode_sort_key [OF fin] filter_code_sort_key [OF fin] by simp
qed

theorem C6_sorted_and_stable_witness:
  "validCodes (valueElements (repeated_code_document [])) \<and>
   sortedByCode (fst (parseCalibrationXML repeated_code_document (Num 1) [])) \<and>
   map name (filter (\<lambda>p. x p = Num 289) (fst (parseCalibrationXML repeated_code_document (Num 1) [])))
     = [1, 3]"
proof -
  have v: "validCodes (valueElements (repeated_code_document []))"
    by (simp add: validCodes_def repeated_code_document_def yieldsPoint_def parse_number_defs)
  from C6_sorted_and_stable [of repeated_code_document "[]" "Num 1", OF v] v show ?thesis
    by (simp add: collect_repeated)
qed

lemma length_filter_insort_cmp:
  "length (filter P (insort_cmp cmp a bs)) = length (filter P (a # bs))"
  by (induction bs) auto

lemma length_filter_sort_cmp:
  "length (filter P (sort_cmp cmp zs)) = length (filter P zs)"
proof (induction zs)
  case Nil
  show ?case by (simp add: sort_cmp_def)
next
  case (Cons a zs)
  have "sort_cmp cmp (a # zs) = insort_cmp cmp a (sort_cmp cmp zs)" by (simp add: sort_cmp_def)
  then show ?case using Cons.IH by (simp add: length_filter_insort_cmp)
qed

lemma filter_sort_cmp_single:
  assumes "filter P zs = [p]"
  shows "filter P (sort_cmp cmp zs) = [p]"
proof -
  have len: "length (filter P (sort_cmp cmp zs)) = 1"
    using assms by (simp add: length_filter_sort_cmp)
  then obtain q where q: "filter P (sort_cmp cmp zs) = [q]"
    by (cases "filter P (sort_cmp cmp zs)") auto
  then have "q \<in> set (filter P (sort_cmp cmp zs))" by simp
  then have "q \<in> set (filter P zs)" by (simp add: set_sort_cmp)
  with assms q show ?thesis by simp
qed

lemma filter_sort_cmp_none:
  assumes "filter P zs = []"
  shows "filter P (sort_cmp cmp zs) = []"
  using assms length_filter_sort_cmp [of P cmp zs] by simp

lemma in_map_filter: "q \<in> set (List.map_filter f zs) \<longleftrightarrow> (\<exists>z \<in> set zs. f z = Some q)"
  by (induction zs) (auto split: option.splits)

lemma collected_name_gt:
  assumes "q \<in> set (List.map_filter (calibrationPoint vd) (enumerate n es))"
  shows "n < name q"
proof -
  from assms obtain j e where je: "(j, e) \<in> set (enumerate n es)"
    and q: "calibrationPoint vd (j, e) = Some q" by (auto simp: in_map_filter)
  from je have "n \<le> j" by (simp add: in_set_enumerate_eq)
  moreover from q have "name q = j + 1" by (auto simp: calibrationPoint_Some)
  ultimately show ?thesis by simp
qed

lemma collected_names_distinct:
  "distinct (map name (List.map_filter (calibrationPoint vd) (enumerate n es)))"
proof (induction es arbitrary: n)
  case Nil
  show ?case by simp
next
  case (Cons e es)
  show ?case
  proof (cases "calibrationPoint vd (n, e)")
    case None
    then show ?thesis using Cons.IH [of "Suc n"] by simp
  next
    case (Some p)
    then have "name p = n + 1" by (auto simp: calibrationPoint_Some)
    moreover have "\<forall>q \<in> set (List.map_filter (calibrationPoint vd) (enumerate (Suc n) es)). Suc n < name q"
      by (auto dest: collected_name_gt)
    ultimately have "name p \<notin> name ` set (List.map_filter (calibrationPoint vd) (enumerate (Suc n) es))"
      by auto
    then show ?thesis using Some Cons.IH [of "Suc n"] by simp
  qed
qed

lemma filter_distinct_key:
  "distinct (map f zs) \<Longrightarrow> p \<in> set zs \<Longrightarrow> filter (\<lambda>q. f q = f p) zs = [p]"
proof (induction zs)
  case Nil
  then show ?case by simp
next
  case (Cons a zs)
  show ?case
  proof (cases "a = p")
    case True
    with Cons.prems have "f p \<notin> f ` set zs" by simp
    then have "\<forall>q \<in> set zs. f q \<noteq> f p" by (metis imageI)
    then have "filter (\<lambda>q. f q = f p) zs = []" by (simp add: filter_empty_conv)
    with True show ?thesis by simp
  next
    case False
    with Cons.prems have "p \<in> set zs" "f a \<noteq> f p" by auto
    with Cons show ?thesis by simp
  qed
qed

text \<open>
  C3, as amended: for every entry with a present \<open>code\<close> attribute and a non-empty body,
  the points the parser returns for the entry, that is those numbered after it, are none
  when the attribute is empty and otherwise exactly one, and the volume of that point is
  what \<open>parseInt\<close> reads from the body, the integer at its head with any fraction
  ignored, divided by the divisor of the enclosing render.
\<close>

theorem C3_volume_is_parseInt_over_divider:
  assumes "i < length (valueElements (parseFromString xmlText))"
    and "getAttribute_code (valueElements (parseFromString xmlText) ! i) = Some code"
    and "textContent (valueElements (parseFromString xmlText) ! i) = body"
    and "body \<noteq> []"
  shows "filter (\<lambda>q. name q = i + 1) (fst (parseCalibrationXML parseFromString divider xmlText)) =
           (if code = [] then []
            else [\<lparr>x = parseInt code, y = jdiv (parseInt body) divider, name = i + 1\<rparr>])"
proof -
  let ?es = "valueElements (parseFromString xmlText)"
  let ?pts = "collectPoints divider ?es"
  let ?p = "\<lparr>x = parseInt code, y = jdiv (parseInt body) divider, name = i + 1\<rparr>"
  have res: "fst (parseCalibrationXML parseFromString divider xmlText) = sort_cmp byX ?pts"
    by (simp add: parseCalibrationXML_def Let_def)
  show ?thesis
  proof (cases "code = []")
    case True
    have "name q \<noteq> i + 1" if "q \<in> set ?pts" for q
    proof
      assume n: "name q = i + 1"
      from that obtain j where j: "j < length ?es"
        "calibrationPoint divider (j, ?es ! j) = Some q" by (auto simp: in_collectPoints)
      then have "name q = j + 1" by (auto simp: calibrationPoint_Some)
      with n have "j = i" by simp
      with j assms True show False by (auto simp: calibrationPoint_Some)
    qed
    then have "filter (\<lambda>q. name q = i + 1) ?pts = []" by (simp add: filter_empty_conv)
    then show ?thesis unfolding res using True by (simp add: filter_sort_cmp_none)
  next
    case False
    have "calibrationPoint divider (i, ?es ! i) = Some ?p"
      using assms False by (simp add: calibrationPoint_Some)
    with assms(1) have mem: "?p \<in> set ?pts"
      unfolding in_collectPoints by blast
    have "distinct (map name ?pts)"
      unfolding collectPoints_def by (rule collected_names_distinct)
    from filter_distinct_key [OF this mem]
    have "filter (\<lambda>q. name q = i + 1) ?pts = [?p]" by simp
    then show ?thesis unfolding res using False by (simp add: filter_sort_cmp_single)
  qed
qed

theorem C3_volume_is_parseInt_over_divider_witness:
  "0 < length (valueElements (one_entry_document [])) \<and>
   getAttribute_code (valueElements (one_entry_document []) ! 0) = Some ''289'' \<and>
   textContent (valueElements (one_entry_document []) ! 0) = ''100'' \<and>
   filter (\<lambda>q. name q = 1) (fst (parseCalibrationXML one_entry_document (Num 10) [])) =
     [\<lparr>x = Num 289, y = Num 10, name = 1\<rparr>]"
proof -
  have h: "0 < length (valueElements (one_entry_document []))"
    "getAttribute_code (valueElements (one_entry_document []) ! 0) = Some ''289''"
    "textContent (valueElements (one_entry_document []) ! 0) = ''100''"
    "''100'' \<noteq> []"
    by (simp_all add: one_entry_document_def)
  have n: "parseInt ''289'' = Num 289" "parseInt ''100'' = Num 100"
    by (simp_all add: parse_number_defs)
  from C3_volume_is_parseInt_over_divider [of 0 one_entry_document "[]", OF h, of "Num 10"] h n
  show ?thesis by simp
qed

text \<open>
  C3 as stated fails on a fractional body: for the entry with code 1 and body \<open>10.5\<close> and
  the divisor 1 the volume of the point is 10, while the numeric value of the body, as
  \<open>parseFloat\<close> reads it, is 10.5.
\<close>

theorem C3_counterexample:
  "getAttribute_code (hd (valueElements (fractional_document []))) = Some ''1'' \<and>
   textContent (hd (valueElements (fractional_document []))) = ''10.5'' \<and>
   parseFloat ''10.5'' = Num (21 / 2) \<and>
   fst (parseCalibrationXML fractional_document (Num 1) []) = [\<lparr>x = Num 1, y = Num 10, name = 1\<rparr>] \<and>
   map y (fst (parseCalibrationXML fractional_document (Num 1) [])) \<noteq>
     [jdiv (parseFloat ''10.5'') (Num 1)]"
  by (simp add: fractional_document_def parseCalibrationXML_def collectPoints_def
      enumerate_eq_zip calibrationPoint_def parse_number_defs sort_cmp_def)

section \<open>Changing the divider\<close>

text \<open>
  Whatever new divider is entered, the table that \<open>handleDividerChange\<close> hands to ChartPage
  is divided by the divider of the render before the change, while ChartPage is told the
  new one.
\<close>

lemma handleDividerChange_uses_old_divider:
  "lastXmlData st \<noteq> [] \<Longrightarrow>
   calibrationData (handleDividerChange parseFromString st newDivider) =
     fst (parseCalibrationXML parseFromString (volumeDivider st) (lastXmlData st)) \<and>
   chartVolumeDivider (handleDividerChange parseFromString st newDivider) = newDivider \<and>
   volumeDivider (handleDividerChange parseFromString st newDivider) = newDivider"
  by (simp add: handleDividerChange_def handleCalibrationDataChange_def Let_def)

text \<open>
  C1 on the code: after the upload of a document with the single entry 289 / 100 under the
  initial divider 1, the dividers 2 and then 4 leave the volume 50 in the table, which is
  100 divided by 2, and a single change to 4 leaves the volume 100. The claim asks for 25
  in both cases.
\<close>

theorem C1_divider_change_is_stale:
  "map y (calibrationData (handleCalibrationUpload one_entry_document initial_state ''xml'')) = [Num 100] \<and>
   map y (calibrationData
     (handleDividerChange one_entry_document
       (handleDividerChange one_entry_document
         (handleCalibrationUpload one_entry_document initial_state ''xml'') (Num 2)) (Num 4)))
     = [Num 50] \<and>
   map y (calibrationData
     (handleDividerChange one_entry_document
       (handleCalibrationUpload one_entry_document initial_state ''xml'') (Num 4)))
     = [Num 100]"
  by (simp add: handleDividerChange_def handleCalibrationUpload_def handleCalibrationDataChange_def
      initial_state_def one_entry_document_def parseCalibrationXML_def collectPoints_def
      enumerate_eq_zip calibrationPoint_def parse_number_defs sort_cmp_def)

section \<open>Properties of the raw series parser\<close>

text \<open>\<open>split\<close> never returns the empty array, so \<open>lines[0]\<close> exists.\<close>

lemma split_on_not_Nil: "split_on c s \<noteq> []"
  by (induction s) (auto split: list.splits)

lemmas string_defs = trim_def trimStart_def isWhiteSpace_def removeQuotes_def

lemma orZero_not_NaN: "\<not> isNaN (orZero v)"
  by (cases v) (simp_all add: orZero_def)

lemma mapRows_length:
  "mapRows n ls = Inr points \<Longrightarrow> length points = length ls \<and> (\<forall>p \<in> set points. \<not> isNaN (y p))"
proof (induction ls arbitrary: n points)
  case Nil
  then show ?case by simp
next
  case (Cons l ls)
  from Cons.prems obtain p ps where p: "rawPoint n l = Inr p" and ps: "mapRows (n + 1) ls = Inr ps"
    and pts: "points = p # ps" by (auto split: sum.splits)
  from p have "\<not> isNaN (y p)" by (auto simp: rawPoint_def Let_def orZero_not_NaN split: if_splits)
  with Cons.IH [OF ps] pts show ?case by simp
qed

text \<open>No row is ever dropped: a parse that succeeds returns one sample for each data line.\<close>

lemma parseRawDataCSV_keeps_every_row:
  "parseRawDataCSV csvText = Inr points \<Longrightarrow> length points = length (dataLines csvText)"
proof -
  assume a: "parseRawDataCSV csvText = Inr points"
  then obtain ps where ps: "mapRows 0 (dataLines csvText) = Inr ps"
    and pts: "points = filter (\<lambda>point. \<not> isNaN (y point)) ps"
    by (auto simp: parseRawDataCSV_def split: sum.splits)
  from mapRows_length [OF ps] have "length ps = length (dataLines csvText)"
    and "filter (\<lambda>point. \<not> isNaN (y point)) ps = ps" by (simp_all add: filter_id_conv)
  with pts show ?thesis by simp
qed

text \<open>
  C2 on the code: of three rows, the second one has the field \<open>abc\<close>, which \<open>parseFloat\<close>
  reads as NaN; the parse returns three samples, the second one with code 0.
\<close>

theorem C2_malformed_row_is_kept:
  "parseFloat ''abc'' = NaN \<and>
   parseRawDataCSV
     ''28.06.2025 07:03:29,2535\<newline>28.06.2025 07:05:29,abc\<newline>28.06.2025 07:07:29,2534'' =
   Inr [\<lparr>x = Num 0, y = Num 2535, name = ''28.06.2025 07:03:29''\<rparr>,
        \<lparr>x = Num 1, y = Num 0, name = ''28.06.2025 07:05:29''\<rparr>,
        \<lparr>x = Num 2, y = Num 2534, name = ''28.06.2025 07:07:29''\<rparr>]"
  by (simp add: parseRawDataCSV_def dataLines_def hasHeader_def toLowerCase_def toLowerChar_def rawPoint_def
      orZero_def string_defs parse_number_defs Let_def)

section \<open>Properties of the statistics\<close>

lemma parseDateTime_not_a_date:
  "parseDateTime getTime ''not-a-date'' = Inl (MalformedDate ''not-a-date'')"
  by (simp add: parseDateTime_def string_defs)

lemma parseDateTime_dated:
  "parseDateTime example_getTime ''28.06.2025 07:03:29'' = Inr (Num 29)"
  by (simp add: parseDateTime_def string_defs parse_number_defs example_getTime_def)

lemmas convert_defs = convertSensorCodeToLiters_def sort_cmp_def byX_def positive_def jsub_def
  interpolationPoints_def linear_def jge_def

lemma jsub_zero: "jsub v (Num 0) = v"
  by (cases v) (simp_all add: jsub_def)

lemma sumOf_Num_aux: "foldl jadd (Num a) (map Num rs) = Num (a + sum_list rs)"
  by (induction rs arbitrary: a) (simp_all add: algebra_simps)

lemma sumOf_Num: "sumOf (map Num rs) = Num (sum_list rs)"
  by (simp add: sumOf_def sumOf_Num_aux)

lemma mathMax_Num_aux: "foldl jmax (Num a) (map Num rs) = Num (Max (set (a # rs)))"
proof (induction rs arbitrary: a)
  case Nil
  show ?case by simp
next
  case (Cons r rs)
  have "jmax (Num a) (Num r) = Num (max a r)" by (simp add: max_def)
  moreover have "Max (set (max a r # rs)) = Max (set (a # r # rs))"
    by (cases "rs = []") (simp_all add: max.assoc)
  ultimately show ?case using Cons.IH [of "max a r"] by simp
qed

lemma mathMax_Num: "rs \<noteq> [] \<Longrightarrow> mathMax (map Num rs) = Num (Max (set rs))"
  by (cases rs) (simp_all add: mathMax_def mathMax_Num_aux)

lemma deviation_empty_table:
  "map deviation (rawWithCalibration [] raws) = map (\<lambda>r. jabs (y r)) raws"
  by (simp add: rawWithCalibration_def findClosestCalibration_def
      convertSensorCodeToLiters_def jsub_zero Let_def)

lemma rawDataWithTimestamp_drop:
  "withTimestamp getTime cal s = None \<Longrightarrow>
   rawDataWithTimestamp getTime cal (pre @ s # post) = rawDataWithTimestamp getTime cal (pre @ post)"
  by (simp add: rawDataWithTimestamp_def List.map_filter_def)

text \<open>
  C7: a sample whose name makes \<open>parseDateTime\<close> throw is absent from the timestamped view,
  so the average of the measurements is the one over the other samples; it is counted in
  the number of measurements; and its deviation, computed from its code, is one of the
  deviations whose mean and maximum the panel shows.
\<close>

theorem C7_undated_sample:
  assumes "parseDateTime getTime (name s) = Inl e"
  shows "rawDataWithTimestamp getTime cal (pre @ s # post) =
           rawDataWithTimestamp getTime cal (pre @ post) \<and>
         (\<exists>st. StatisticsPanel getTime cal (pre @ s # post) = Some st \<and>
            sampleCount st = length pre + 1 + length post \<and>
            rawAvgInLiters st =
              (if length (rawDataWithTimestamp getTime cal (pre @ post)) > 0
               then jdiv (sumOf (map y (rawDataWithTimestamp getTime cal (pre @ post))))
                      (Num (real (length (rawDataWithTimestamp getTime cal (pre @ post)))))
               else Num 0) \<and>
            avgDeviation st =
              jdiv (sumOf (map deviation (rawWithCalibration cal pre) @
                      jabs (jsub (convertSensorCodeToLiters cal (y s))
                                 (y (findClosestCalibration cal (y s)))) #
                      map deviation (rawWithCalibration cal post)))
                (Num (real (length pre + 1 + length post))) \<and>
            maxDeviation st =
              mathMax (map deviation (rawWithCalibration cal pre) @
                      jabs (jsub (convertSensorCodeToLiters cal (y s))
                                 (y (findClosestCalibration cal (y s)))) #
                      map deviation (rawWithCalibration cal post)))"
proof -
  from assms have none: "withTimestamp getTime cal s = None" by (simp add: withTimestamp_def)
  have drop: "rawDataWithTimestamp getTime cal (pre @ s # post) =
      rawDataWithTimestamp getTime cal (pre @ post)"
    using none by (rule rawDataWithTimestamp_drop)
  have devs: "map deviation (rawWithCalibration cal (pre @ s # post)) =
      map deviation (rawWithCalibration cal pre) @
      jabs (jsub (convertSensorCodeToLiters cal (y s)) (y (findClosestCalibration cal (y s)))) #
      map deviation (rawWithCalibration cal post)"
    by (simp add: rawWithCalibration_def Let_def)
  have len: "length (rawWithCalibration cal (pre @ s # post)) = length pre + 1 + length post"
    by (simp add: rawWithCalibration_def)
  show ?thesis
    unfolding StatisticsPanel_def Let_def drop devs len by simp
qed

theorem C7_undated_sample_witness:
  "parseDateTime example_getTime (name undated_sample) = Inl (MalformedDate ''not-a-date'') \<and>
   rawDataWithTimestamp example_getTime scenario_curve [dated_sample, undated_sample] =
     [\<lparr>x = Num 29, y = Num (3 / 2), name = ''28.06.2025 07:03:29''\<rparr>] \<and>
   (\<exists>st. StatisticsPanel example_getTime scenario_curve [dated_sample, undated_sample] = Some st \<and>
      sampleCount st = 2 \<and> rawAvgInLiters st = Num (3 / 2) \<and> avgDeviation st = Num (1 / 2))"
proof -
  have h: "parseDateTime example_getTime (name undated_sample) = Inl (MalformedDate ''not-a-date'')"
    by (simp add: undated_sample_def parseDateTime_not_a_date)
  have stamped: "rawDataWithTimestamp example_getTime scenario_curve [dated_sample] =
      [\<lparr>x = Num 29, y = Num (3 / 2), name = ''28.06.2025 07:03:29''\<rparr>]"
    by (simp add: rawDataWithTimestamp_def withTimestamp_def dated_sample_def
        parseDateTime_dated scenario_curve_def convert_defs)
  have dev1: "map deviation (rawWithCalibration scenario_curve [dated_sample]) = [Num (1 / 2)]"
    by (simp add: rawWithCalibration_def dated_sample_def scenario_curve_def convert_defs
        findClosestCalibration_def)
  have dev2: "jabs (jsub (convertSensorCodeToLiters scenario_curve (y undated_sample))
        (y (findClosestCalibration scenario_curve (y undated_sample)))) = Num (1 / 2)"
    by (simp add: undated_sample_def scenario_curve_def convert_defs findClosestCalibration_def)
  have dev3: "rawWithCalibration scenario_curve [] = []"
    by (simp add: rawWithCalibration_def)
  from C7_undated_sample [OF h, of scenario_curve "[dated_sample]" "[]"]
  show ?thesis
    by (auto simp: h stamped dev1 dev2 dev3 sumOf_def)
qed

text \<open>
  C10: over an empty calibration table and at least one raw sample, the deviation of every
  sample is the absolute value of its code; when the codes are real numbers, the average
  deviation is the mean of their absolute values and the maximum deviation is the largest
  of them.
\<close>

theorem C10_empty_table_deviation:
  assumes "raws \<noteq> []" and "map y raws = map Num codes"
  shows "map deviation (rawWithCalibration [] raws) = map (\<lambda>c. Num \<bar>c\<bar>) codes \<and>
         (\<exists>st. StatisticsPanel getTime [] raws = Some st \<and>
            avgDeviation st = Num (sum_list (map abs codes) / real (length codes)) \<and>
            maxDeviation st = Num (Max (set (map abs codes))))"
proof -
  have "map (\<lambda>r. jabs (y r)) raws = map jabs (map y raws)" by simp
  also have "\<dots> = map (\<lambda>c. Num \<bar>c\<bar>) codes" by (simp add: assms(2))
  finally have dev: "map deviation (rawWithCalibration [] raws) = map Num (map abs codes)"
    by (simp add: deviation_empty_table comp_def)
  have "length (map y raws) = length (map Num codes)" by (simp only: assms(2))
  then have len: "length codes = length raws" by simp
  with assms(1) have ne: "codes \<noteq> []" by auto
  have rows: "length (rawWithCalibration [] raws) = length raws"
    by (simp add: rawWithCalibration_def)
  from assms(1) have nz: "real (length raws) \<noteq> 0" by simp
  have avg: "jdiv (sumOf (map deviation (rawWithCalibration [] raws))) (Num (real (length raws)))
      = Num (sum_list (map abs codes) / real (length codes))"
    unfolding dev sumOf_Num using nz len by simp
  have mx: "mathMax (map deviation (rawWithCalibration [] raws)) = Num (Max (set (map abs codes)))"
    unfolding dev using ne by (intro mathMax_Num) simp
  from rows assms(1) have rne: "rawWithCalibration [] raws \<noteq> []" by auto
  have "avgDeviation (the (StatisticsPanel getTime [] raws)) =
      Num (sum_list (map abs codes) / real (length codes))"
    using avg assms(1) rne rows by (simp add: StatisticsPanel_def Let_def)
  moreover have "maxDeviation (the (StatisticsPanel getTime [] raws)) =
      Num (Max (set (map abs codes)))"
    using mx assms(1) rne by (simp add: StatisticsPanel_def Let_def)
  moreover have "StatisticsPanel getTime [] raws \<noteq> None"
    using assms(1) by (simp add: StatisticsPanel_def Let_def)
  ultimately show ?thesis using dev by (auto simp: comp_def)
qed

theorem C10_empty_table_deviation_witness:
  "signed_raw \<noteq> [] \<and> map y signed_raw = map Num [- 3, 5] \<and>
   map deviation (rawWithCalibration [] signed_raw) = [Num 3, Num 5] \<and>
   (\<exists>st. StatisticsPanel example_getTime [] signed_raw = Some st \<and>
      avgDeviation st = Num 4 \<and> maxDeviation st = Num 5)"
proof -
  have h: "signed_raw \<noteq> []" "map y signed_raw = map Num [- 3, 5]"
    by (simp_all add: signed_raw_def)
  from C10_empty_table_deviation [OF h, of example_getTime] h show ?thesis by simp
qed

end
